theory Spec2Isabelle
  imports Complex_Main "HOL-Library.Char_ord" "HOL-Library.List_Lexorder"
    "HOL-Library.Product_Lexorder" "HOL-Library.Word"
begin

section \<open>Strings and characters\<close>

text \<open>
  Python strings are modelled as lists of 8-bit characters (the Latin-1 code points,
  which is also how request headers reach the application). On this range the
  decimal digits matched by \<open>\d\<close> are exactly \<open>0\<close> to \<open>9\<close>, and the characters for
  which \<open>str.isspace\<close> holds (used by \<open>\s\<close> and by \<open>str.strip\<close>) are the code
  points 9 to 13, 28 to 31, 32, 133 and 160. \<open>str.isdigit\<close> additionally accepts the
  superscript digits 178, 179 and 185, which \<open>int\<close> rejects.
\<close>

definition is_digit :: "char \<Rightarrow> bool" where
  "is_digit c = (c \<in> set ''0123456789'')"

definition is_space :: "char \<Rightarrow> bool" where
  "is_space c =
     ((of_char c :: nat) \<in> set [9, 10, 11, 12, 13, 28, 29, 30, 31, 32, 133, 160])"

definition py_isdigit_char :: "char \<Rightarrow> bool" where
  "py_isdigit_char c = (is_digit c \<or> (of_char c :: nat) \<in> set [178, 179, 185])"

definition lower_char :: "char \<Rightarrow> char" where
  "lower_char c =
     (let n = (of_char c :: nat)
      in if (65 \<le> n \<and> n \<le> 90) \<or> (192 \<le> n \<and> n \<le> 222 \<and> n \<noteq> 215)
         then char_of (n + 32) else c)"

definition lower :: "string \<Rightarrow> string" where
  "lower s = map lower_char s"

definition strip :: "string \<Rightarrow> string" where
  "strip s = rev (dropWhile is_space (rev (dropWhile is_space s)))"

fun startswith :: "string \<Rightarrow> string \<Rightarrow> bool" where
  "startswith s [] = True"
| "startswith [] (p # ps) = False"
| "startswith (c # cs) (p # ps) = (c = p \<and> startswith cs ps)"

definition endswith :: "string \<Rightarrow> string \<Rightarrow> bool" where
  "endswith s suf = startswith (rev s) (rev suf)"

fun contains :: "string \<Rightarrow> string \<Rightarrow> bool" where
  "contains [] sub = (sub = [])"
| "contains (c # cs) sub = (startswith (c # cs) sub \<or> contains cs sub)"

definition digit_val :: "char \<Rightarrow> int" where
  "digit_val c = of_char c - 48"

text \<open>The number a string of decimal digits denotes; Python integers are unbounded.\<close>

definition decimal_value :: "string \<Rightarrow> int" where
  "decimal_value s = foldl (\<lambda>a c. 10 * a + digit_val c) 0 s"

datatype py_error = AttributeError | ValueError | OSError

text \<open>
  \<open>int(s)\<close> on a non-empty string of the digits \<open>0\<close> to \<open>9\<close>, which is what every
  call in the program passes. CPython refuses to convert more than
  \<open>sys.int_max_str_digits\<close> digits, 4300 unless configured otherwise, leading zeros
  included, and raises \<open>ValueError\<close>.
\<close>

definition INT_MAX_STR_DIGITS :: nat where
  "INT_MAX_STR_DIGITS = 4300"

definition py_int :: "string \<Rightarrow> py_error + int" where
  "py_int s = (if INT_MAX_STR_DIGITS < length s then Inl ValueError else Inr (decimal_value s))"

fun str_nat :: "nat \<Rightarrow> string" where
  "str_nat n =
     (if n < 10 then [char_of (48 + n)]
      else str_nat (n div 10) @ [char_of (48 + n mod 10)])"

declare str_nat.simps [simp del]

text \<open>\<open>str(i)\<close> for an integer. The same limit of 4300 digits applies; the integers
  the program renders are a file size, below \<open>2^63\<close>, a start that \<open>int\<close> has
  accepted, and values between these, so the limit is never reached.\<close>

definition py_str :: "int \<Rightarrow> string" where
  "py_str i = (if i < 0 then CHR ''-'' # str_nat (nat (- i)) else str_nat (nat i))"

section \<open>Regular expressions\<close>

text \<open>
  The patterns of the program are sequences of single-character atoms with a
  quantifier, and unnested capturing groups. \<open>rmatch\<close> is the backtracking matcher of
  \<open>re\<close> on such patterns: a greedy quantifier tries the longest run first, a lazy one
  the shortest, and the first complete match in that order is the result.
  \<open>rsearch\<close> is \<open>re.search\<close>: the leftmost start position that admits a match.
  The flag \<open>ic\<close> is \<open>re.IGNORECASE\<close>.
\<close>

datatype cclass = Dot | Ws | Dig | Chr char | OneOf "char list"

datatype quant = Once | Opt | Plus | Star | LazyPlus | LazyStar

datatype elem = Atom cclass quant | GOpen | GClose

fun cmatch :: "bool \<Rightarrow> cclass \<Rightarrow> char \<Rightarrow> bool" where
  "cmatch ic Dot c = (c \<noteq> CHR 0x0A)"
| "cmatch ic Ws c = is_space c"
| "cmatch ic Dig c = is_digit c"
| "cmatch ic (Chr l) c = (if ic then lower_char c = lower_char l else c = l)"
| "cmatch ic (OneOf ls) c =
     (if ic then lower_char c \<in> set (map lower_char ls) else c \<in> set ls)"

text \<open>The repetition counts a quantifier tries, in order, when at most \<open>n\<close>
  characters in a row belong to the class.\<close>

fun counts :: "quant \<Rightarrow> nat \<Rightarrow> nat list" where
  "counts Once n = (if 1 \<le> n then [1] else [])"
| "counts Opt n = (if 1 \<le> n then [1, 0] else [0])"
| "counts Plus n = rev [1..<Suc n]"
| "counts Star n = rev [0..<Suc n]"
| "counts LazyPlus n = [1..<Suc n]"
| "counts LazyStar n = [0..<Suc n]"

fun first_some :: "('a \<Rightarrow> 'b option) \<Rightarrow> 'a list \<Rightarrow> 'b option" where
  "first_some f [] = None"
| "first_some f (x # xs) = (case f x of Some y \<Rightarrow> Some y | None \<Rightarrow> first_some f xs)"

fun rmatch ::
  "bool \<Rightarrow> elem list \<Rightarrow> string \<Rightarrow> string list \<Rightarrow> string list \<Rightarrow> (string list \<times> string) option"
where
  "rmatch ic [] s opens caps = Some (caps, s)"
| "rmatch ic (GOpen # r) s opens caps = rmatch ic r s (s # opens) caps"
| "rmatch ic (GClose # r) s opens caps =
     (case opens of
        [] \<Rightarrow> None
      | s0 # os \<Rightarrow> rmatch ic r s os (caps @ [take (length s0 - length s) s0]))"
| "rmatch ic (Atom c q # r) s opens caps =
     first_some (\<lambda>k. rmatch ic r (drop k s) opens caps)
       (counts q (length (takeWhile (cmatch ic c) s)))"

fun rsearch :: "bool \<Rightarrow> elem list \<Rightarrow> string \<Rightarrow> string list option" where
  "rsearch ic p [] = map_option fst (rmatch ic p [] [] [])"
| "rsearch ic p (c # cs) =
     (case rmatch ic p (c # cs) [] [] of
        Some m \<Rightarrow> Some (fst m)
      | None \<Rightarrow> rsearch ic p cs)"

definition lit :: "string \<Rightarrow> elem list" where
  "lit s = map (\<lambda>c. Atom (Chr c) Once) s"

definition grp :: "elem list \<Rightarrow> elem list" where
  "grp es = GOpen # es @ [GClose]"

section \<open>Range streaming\<close>

text \<open>
  \<open>stream_file_with_ranges\<close> of \<open>app.py\<close>. The file on disk is a sequence of
  bytes whose length is a file size, an \<open>off_t\<close>, and so below \<open>2^63\<close> (\<open>None\<close> when
  \<open>os.path.getsize\<close> raises, which the handler turns into \<open>abort(500)\<close>); the
  request contributes its \<open>Range\<close> header. The library function
  \<open>mimetypes.guess_type\<close> is a parameter, and so are the text of
  \<open>str(video_info.get('duration', 0))\<close>, a float rendering (\<open>None\<close> when no
  video information was passed), and the largest offset the filesystem lets a file be
  positioned at. The response body is the list of chunks the generator yields,
  together with the exception it ends with, if any.
\<close>

type_synonym byte = "8 word"

typedef disk_file = "{xs :: byte list. length xs < 2 ^ 63}"
  morphisms contents disk_file
  by (rule exI [of _ "[]"]) simp

definition CHUNK_SIZE :: int where
  "CHUNK_SIZE = 8192 * 4"

datatype http_error = Abort nat

record response =
  status_code :: nat
  headers :: "(string \<times> string) list"
  body :: "byte list list"
  body_error :: "py_error option"

definition range_pattern :: "elem list" where
  "range_pattern = lit ''bytes='' @ grp [Atom Dig Plus] @ lit ''-'' @ grp [Atom Dig Star]"

text \<open>The values of \<open>byte_start\<close> and \<open>byte_end\<close> after the header has been
  parsed and before \<open>byte_end\<close> is clamped, or the exception \<open>int\<close> raises.\<close>

definition parse_range :: "string option \<Rightarrow> int \<Rightarrow> py_error + int \<times> int" where
  "parse_range range_header fsize =
     (case range_header of
        None \<Rightarrow> Inr (0, fsize - 1)
      | Some h \<Rightarrow>
          if h = [] then Inr (0, fsize - 1)
          else (case rsearch False range_pattern h of
                  None \<Rightarrow> Inr (0, fsize - 1)
                | Some gs \<Rightarrow>
                    (case py_int (gs ! 0) of
                       Inl e \<Rightarrow> Inl e
                     | Inr byte_start \<Rightarrow>
                         if gs ! 1 \<noteq> []
                         then (case py_int (gs ! 1) of
                                 Inl e \<Rightarrow> Inl e
                               | Inr byte_end \<Rightarrow> Inr (byte_start, byte_end))
                         else Inr (byte_start, fsize - 1))))"

text \<open>\<open>os.path.splitext(p)[1]\<close>: the text from the last dot of the last path
  component on, unless only dots precede it there.\<close>

definition splitext_ext :: "string \<Rightarrow> string" where
  "splitext_ext p =
     (let base = rev (takeWhile (\<lambda>c. c \<noteq> CHR ''/'') (rev p));
          ext = rev (takeWhile (\<lambda>c. c \<noteq> CHR ''.'') (rev base));
          stem = take (length base - length ext - 1) base
      in if CHR ''.'' \<in> set base \<and> list_ex (\<lambda>c. c \<noteq> CHR ''.'') stem
         then CHR ''.'' # ext else [])"

definition content_type_of :: "(string \<Rightarrow> string option) \<Rightarrow> string \<Rightarrow> string" where
  "content_type_of guess_type file_path =
     (let ext = lower (splitext_ext file_path);
          content_type =
            (if endswith file_path ''.mp4'' then ''video/mp4''
             else if endswith file_path ''.webm'' then ''video/webm''
             else if endswith file_path ''.mkv'' then ''video/x-matroska''
             else if endswith file_path ''.avi'' then ''video/x-msvideo''
             else (case guess_type file_path of
                     None \<Rightarrow> ''application/octet-stream''
                   | Some detected_type \<Rightarrow>
                       if detected_type \<noteq> [] then detected_type
                       else ''application/octet-stream''))
      in if ext \<in> set [''.pdf''] then ''application/pdf''
         else if ext \<in> set [''.doc'', ''.docx''] then ''application/msword''
         else if ext \<in> set [''.xls'', ''.xlsx''] then ''application/vnd.ms-excel''
         else if ext \<in> set [''.ppt'', ''.pptx''] then ''application/vnd.ms-powerpoint''
         else if ext \<in> set [''.txt'', ''.md'', ''.csv''] then ''text/plain''
         else if ext \<in> set [''.rtf''] then ''application/rtf''
         else if ext \<in> set [''.odt''] then ''application/vnd.oasis.opendocument.text''
         else if ext \<in> set [''.ods''] then ''application/vnd.oasis.opendocument.spreadsheet''
         else if ext \<in> set [''.odp''] then ''application/vnd.oasis.opendocument.presentation''
         else if ext \<in> set [''.js''] then ''application/javascript''
         else if ext \<in> set [''.json''] then ''application/json''
         else if ext \<in> set [''.xml''] then ''application/xml''
         else if ext \<in> set [''.yaml'', ''.yml''] then ''application/x-yaml''
         else if ext \<in> set [''.html'', ''.htm''] then ''text/html''
         else if ext \<in> set [''.css''] then ''text/css''
         else if ext \<in> set [''.py'', ''.sh'', ''.php'', ''.java'', ''.cpp'', ''.h'', ''.sql'']
           then ''text/plain''
         else if ext \<in> set [''.zip''] then ''application/zip''
         else if ext \<in> set [''.rar''] then ''application/x-rar-compressed''
         else if ext \<in> set [''.7z''] then ''application/x-7z-compressed''
         else if ext \<in> set [''.tar''] then ''application/x-tar''
         else if ext \<in> set [''.gz''] then ''application/gzip''
         else if ext \<in> set [''.bz2''] then ''application/x-bzip2''
         else if ext \<in> set [''.xz''] then ''application/x-xz''
         else content_type)"

text \<open>
  \<open>f.seek(byte_start)\<close>: an offset of \<open>2^63\<close> or more does not fit an \<open>off_t\<close> and
  raises \<open>ValueError\<close>. An offset inside the file or at its end is accepted; beyond
  the end the filesystem accepts offsets up to \<open>max_offset\<close> and the call raises
  \<open>OSError\<close> above it.
\<close>

definition seek_error :: "byte list \<Rightarrow> int \<Rightarrow> int \<Rightarrow> py_error option" where
  "seek_error f max_offset pos =
     (if 2 ^ 63 \<le> pos then Some ValueError
      else if int (length f) < pos \<and> max_offset < pos then Some OSError
      else None)"

text \<open>
  The loop of the generator, with the file positioned at \<open>pos\<close>: \<open>f.read(k)\<close>
  returns the next \<open>k\<close> bytes, fewer at the end of the file, and none when the
  position is at or beyond it.
\<close>

function read_chunks :: "byte list \<Rightarrow> nat \<Rightarrow> int \<Rightarrow> byte list list" where
  "read_chunks f pos remaining =
     (if remaining > 0
      then (let chunk = take (nat (min CHUNK_SIZE remaining)) (drop pos f)
            in if chunk = [] then []
               else chunk # read_chunks f (pos + length chunk) (remaining - int (length chunk)))
      else [])"
  by pat_completeness auto
termination
  by (relation "measure (\<lambda>(f, pos, remaining). nat remaining)") auto

declare read_chunks.simps [simp del]

text \<open>The generator: the chunks it yields and the exception it ends with, if any.
  The file is positioned before the first read, so a failing \<open>seek\<close> yields
  nothing.\<close>

definition generate :: "byte list \<Rightarrow> int \<Rightarrow> int \<Rightarrow> int \<Rightarrow> byte list list \<times> py_error option" where
  "generate f max_offset byte_start content_length =
     (case seek_error f max_offset byte_start of
        Some e \<Rightarrow> ([], Some e)
      | None \<Rightarrow> (read_chunks f (nat byte_start) content_length, None))"

text \<open>The \<open>try\<close> block, given the bytes of the file.\<close>

definition respond ::
  "(string \<Rightarrow> string option) \<Rightarrow> string \<Rightarrow> byte list \<Rightarrow> string option \<Rightarrow>
   string option \<Rightarrow> int \<Rightarrow> http_error + response"
where
  "respond guess_type file_path f range_header duration max_offset =
     (let fsize = int (length f)
      in case parse_range range_header fsize of
           Inl e \<Rightarrow> Inl (Abort 500)
         | Inr (byte_start, parsed_end) \<Rightarrow>
             let byte_end = min parsed_end (fsize - 1);
                 content_length = byte_end - byte_start + 1;
                 content_type = content_type_of guess_type file_path;
                 hdrs = [(''Content-Type'', content_type),
                         (''Accept-Ranges'', ''bytes''),
                         (''Content-Length'', py_str content_length),
                         (''Cache-Control'', ''no-cache, no-store, must-revalidate''),
                         (''Pragma'', ''no-cache''),
                         (''Expires'', ''0'')];
                 ranged = (range_header \<noteq> None \<and> range_header \<noteq> Some []);
                 hdrs2 = (if ranged
                          then hdrs @ [(''Content-Range'',
                                 ''bytes '' @ py_str byte_start @ ''-'' @ py_str byte_end
                                   @ ''/'' @ py_str fsize)]
                          else hdrs);
                 status = (if ranged then 206 else 200);
                 hdrs3 = (if contains content_type ''video''
                          then hdrs2 @ [(''X-Content-Duration'',
                                          (case duration of Some d \<Rightarrow> d | None \<Rightarrow> ''0'')),
                                        (''Content-Disposition'', ''inline'')]
                          else hdrs2)
             in Inr \<lparr>status_code = status, headers = hdrs3,
                     body = fst (generate f max_offset byte_start content_length),
                     body_error = snd (generate f max_offset byte_start content_length)\<rparr>)"

definition stream_file_with_ranges ::
  "(string \<Rightarrow> string option) \<Rightarrow> string \<Rightarrow> disk_file option \<Rightarrow> string option \<Rightarrow>
   string option \<Rightarrow> int \<Rightarrow> http_error + response"
where
  "stream_file_with_ranges guess_type file_path file range_header duration max_offset =
     (case file of
        None \<Rightarrow> Inl (Abort 500)
      | Some f \<Rightarrow> respond guess_type file_path (contents f) range_header duration max_offset)"

text \<open>Reading a response: a header by name, and the body as one byte sequence.\<close>

definition header :: "response \<Rightarrow> string \<Rightarrow> string option" where
  "header r k = map_of (headers r) k"

definition body_bytes :: "response \<Rightarrow> byte list" where
  "body_bytes r = concat (body r)"

text \<open>The header value \<open>bytes=<start>-<end>\<close> a client sends for a byte range.\<close>

definition range_header_of :: "int \<Rightarrow> int \<Rightarrow> string" where
  "range_header_of start e = ''bytes='' @ py_str start @ ''-'' @ py_str e"

text \<open>The body a client receives for the range \<open>[s, e]\<close>; nothing on an error.\<close>

definition range_body ::
  "(string \<Rightarrow> string option) \<Rightarrow> string \<Rightarrow> disk_file \<Rightarrow> string option \<Rightarrow> int \<Rightarrow>
   int \<times> int \<Rightarrow> byte list"
where
  "range_body guess_type file_path f duration max_offset se =
     (case stream_file_with_ranges guess_type file_path (Some f)
             (Some (range_header_of (fst se) (snd se))) duration max_offset of
        Inl err \<Rightarrow> []
      | Inr r \<Rightarrow> body_bytes r)"

text \<open>Ranges that partition \<open>[lo, n - 1]\<close> in order: each starts where the previous
  one ended, none is empty, and the last ends at \<open>n - 1\<close>.\<close>

fun covers :: "int \<Rightarrow> int \<Rightarrow> (int \<times> int) list \<Rightarrow> bool" where
  "covers lo n [] = (lo = n)"
| "covers lo n ((s, e) # rs) = (s = lo \<and> s \<le> e \<and> e \<le> n - 1 \<and> covers (e + 1) n rs)"

text \<open>A \<open>guess_type\<close> that knows no type, and the status, a header and the
  exception of the body of a result, \<open>None\<close> on an error.\<close>

definition no_guess :: "string \<Rightarrow> string option" where
  "no_guess file_path = None"

definition status_of :: "http_error + response \<Rightarrow> nat option" where
  "status_of res = (case res of Inl e \<Rightarrow> None | Inr r \<Rightarrow> Some (status_code r))"

definition header_of :: "http_error + response \<Rightarrow> string \<Rightarrow> string option" where
  "header_of res k = (case res of Inl e \<Rightarrow> None | Inr r \<Rightarrow> header r k)"

definition body_error_of :: "http_error + response \<Rightarrow> py_error option" where
  "body_error_of res = (case res of Inl e \<Rightarrow> None | Inr r \<Rightarrow> body_error r)"

section \<open>Codec compatibility\<close>

text \<open>
  The dictionary \<open>get_video_info\<close> returns: the \<open>format\<close> block with its
  \<open>format_name\<close>, and the first video and audio stream, each \<open>None\<close> when the file
  has none. A stream is a non-empty dictionary (it has a \<open>codec_type\<close>); its
  \<open>codec_name\<close> may be missing. \<open>duration\<close> and \<open>size\<close> are not read by the
  classifier.
\<close>

record stream_info =
  codec_type :: string
  codec_name :: "string option"

record video_info =
  format_name :: "string option"
  video_stream :: "stream_info option"
  audio_stream :: "stream_info option"

definition WEB_COMPATIBLE_video :: "string list" where
  "WEB_COMPATIBLE_video = [''h264'', ''avc1'', ''vp8'', ''vp9'', ''av01'']"

definition WEB_COMPATIBLE_audio :: "string list" where
  "WEB_COMPATIBLE_audio = [''aac'', ''mp3'', ''opus'', ''vorbis'', ''mp4a'']"

definition WEB_COMPATIBLE_containers :: "string list" where
  "WEB_COMPATIBLE_containers = [''mp4'', ''webm'', ''ogg'', ''mov'']"

text \<open>\<open>d.get(key, '')\<close> on a key that holds a string when present.\<close>

definition get_str :: "string option \<Rightarrow> string" where
  "get_str v = (case v of None \<Rightarrow> [] | Some s \<Rightarrow> s)"

text \<open>\<open>video_info.get('video_stream', {})\<close> is \<open>None\<close> when the file has no video
  stream, since the key is present; \<open>.get\<close> on it raises \<open>AttributeError\<close>.\<close>

definition is_web_compatible :: "video_info option \<Rightarrow> py_error + bool" where
  "is_web_compatible vi =
     (case vi of
        None \<Rightarrow> Inr False
      | Some video_info \<Rightarrow>
          let fmt = lower (get_str (format_name video_info));
              container_compatible = list_ex (\<lambda>f. contains fmt f) WEB_COMPATIBLE_containers
          in (case video_stream video_info of
                None \<Rightarrow> Inl AttributeError
              | Some vs \<Rightarrow>
                  let video_codec = lower (get_str (codec_name vs));
                      video_compatible = (video_codec \<in> set WEB_COMPATIBLE_video);
                      audio_codec = (case audio_stream video_info of
                                       Some as \<Rightarrow> lower (get_str (codec_name as))
                                     | None \<Rightarrow> ''none'');
                      audio_compatible = (audio_codec \<in> set WEB_COMPATIBLE_audio
                                          \<or> audio_codec = ''none'')
                  in Inr (container_compatible \<and> video_compatible \<and> audio_compatible)))"

text \<open>A probe result with a video stream, and an audio stream if a codec is given.\<close>

definition probe :: "string \<Rightarrow> string \<Rightarrow> string option \<Rightarrow> video_info" where
  "probe container vcodec acodec =
     \<lparr>format_name = Some container,
      video_stream = Some \<lparr>codec_type = ''video'', codec_name = Some vcodec\<rparr>,
      audio_stream = map_option (\<lambda>c. \<lparr>codec_type = ''audio'', codec_name = Some c\<rparr>) acodec\<rparr>"

section \<open>Streaming tokens\<close>

text \<open>
  The token table \<open>streaming_tokens\<close> is a dictionary from token to its data; it is
  passed in and returned. Clock readings (\<open>time.time()\<close>) and the random token
  (\<open>secrets.token_urlsafe(32)\<close>) are arguments: issuing a token reads the clock three
  times, for the expiry, for \<open>created\<close> and inside the clean-up.
\<close>

record token_data =
  token_filename :: string
  token_user_id :: string
  expires :: real
  created :: real

type_synonym token_store = "string \<rightharpoonup> token_data"

definition STREAM_TOKEN_EXPIRY :: real where
  "STREAM_TOKEN_EXPIRY = 3600"

definition cleanup_expired_tokens :: "real \<Rightarrow> token_store \<Rightarrow> token_store" where
  "cleanup_expired_tokens current_time streaming_tokens =
     (\<lambda>token. case streaming_tokens token of
                  None \<Rightarrow> None
                | Some d \<Rightarrow> if expires d < current_time then None else Some d)"

definition generate_streaming_token ::
  "string \<Rightarrow> real \<Rightarrow> real \<Rightarrow> real \<Rightarrow> string \<Rightarrow> string \<Rightarrow> token_store \<Rightarrow> string \<times> token_store"
where
  "generate_streaming_token token t_expiry t_created t_cleanup filename user_id streaming_tokens =
     (let expiry = t_expiry + STREAM_TOKEN_EXPIRY;
          stored = streaming_tokens(token \<mapsto>
                     \<lparr>token_filename = filename, token_user_id = user_id,
                      expires = expiry, created = t_created\<rparr>)
      in (token, cleanup_expired_tokens t_cleanup stored))"

definition validate_streaming_token ::
  "real \<Rightarrow> string \<Rightarrow> string \<Rightarrow> token_store \<Rightarrow> bool \<times> token_store"
where
  "validate_streaming_token current_time token filename streaming_tokens =
     (case streaming_tokens token of
        None \<Rightarrow> (False, streaming_tokens)
      | Some token_data \<Rightarrow>
          if expires token_data < current_time
          then (False, streaming_tokens(token := None))
          else if token_filename token_data \<noteq> filename then (False, streaming_tokens)
          else (True, streaming_tokens))"

text \<open>The empty token table.\<close>

definition no_tokens :: token_store where
  "no_tokens = Map.empty"

section \<open>Episode parsing\<close>

record episode_info =
  original_filename :: string
  clean_title :: string
  season :: "int option"
  episode :: "int option"
  series_name :: "string option"

definition video_exts :: "string list" where
  "video_exts = [''mp4'', ''mkv'', ''avi'', ''mov'', ''wmv'', ''flv'', ''webm'', ''m4v'']"

text \<open>
  \<open>re.sub(r'\.(mp4|mkv|avi|mov|wmv|flv|webm|m4v)$', '', filename, flags=re.IGNORECASE)\<close>.
  \<open>$\<close> matches at the end of the string and before a newline that ends it, so the
  extension is removed from the end, or from before a final newline, which stays.
\<close>

definition strip_video_ext :: "string \<Rightarrow> string" where
  "strip_video_ext filename =
     (let nl = (filename \<noteq> [] \<and> last filename = CHR 0x0A);
          core = (if nl then butlast filename else filename)
      in case find (\<lambda>e. endswith (lower core) (CHR ''.'' # e)) video_exts of
           None \<Rightarrow> filename
         | Some e \<Rightarrow> take (length core - length e - 1) core @ (if nl then [CHR 0x0A] else []))"

datatype pattern_type = Series_season_episode | Series_episode

definition patterns :: "(elem list \<times> pattern_type) list" where
  "patterns =
    [(grp [Atom Dot LazyPlus] @ [Atom Ws Plus, Atom (OneOf ''Ss'') Once] @ grp [Atom Dig Plus]
        @ [Atom (OneOf ''Ee'') Once] @ grp [Atom Dig Plus],
      Series_season_episode),
     (grp [Atom Dot LazyPlus] @ [Atom Ws Plus, Atom (OneOf ''Ss'') Once] @ lit ''eason''
        @ [Atom Ws Star] @ grp [Atom Dig Plus] @ [Atom Dot LazyStar, Atom (OneOf ''Ee'') Once]
        @ lit ''pisode'' @ [Atom Ws Star] @ grp [Atom Dig Plus],
      Series_season_episode),
     (grp [Atom Dot LazyPlus] @ [Atom Ws Plus] @ grp [Atom Dig Plus] @ lit ''x''
        @ grp [Atom Dig Plus],
      Series_season_episode),
     (grp [Atom Dot LazyPlus] @ [Atom Ws Plus, Atom (OneOf ''Ee'') Once] @ lit ''p''
        @ [Atom (Chr CHR ''.'') Opt, Atom Ws Star] @ grp [Atom Dig Plus],
      Series_episode),
     (grp [Atom Dot LazyPlus] @ [Atom Ws Plus, Atom (OneOf ''Ee'') Once] @ lit ''pisode''
        @ [Atom Ws Star] @ grp [Atom Dig Plus],
      Series_episode),
     (grp [Atom Dot LazyPlus] @ [Atom Ws Plus, Atom (OneOf ''Ee'') Once] @ grp [Atom Dig Plus],
      Series_episode),
     (grp [Atom Dot LazyPlus] @ [Atom Ws Plus] @ grp [Atom Dig Plus],
      Series_episode)]"

text \<open>The loop over the patterns: the first pattern that matches sets the fields and
  ends the loop. \<open>int\<close> raises on a group of more than 4300 digits.\<close>

fun apply_patterns ::
  "(elem list \<times> pattern_type) list \<Rightarrow> string \<Rightarrow> episode_info \<Rightarrow> py_error + episode_info"
where
  "apply_patterns [] clean_name info = Inr info"
| "apply_patterns ((pattern, pattern_type) # ps) clean_name info =
     (case rsearch True pattern clean_name of
        None \<Rightarrow> apply_patterns ps clean_name info
      | Some m \<Rightarrow>
          (case pattern_type of
             Series_season_episode \<Rightarrow>
               (case py_int (m ! 1) of
                  Inl e \<Rightarrow> Inl e
                | Inr season_number \<Rightarrow>
                    (case py_int (m ! 2) of
                       Inl e \<Rightarrow> Inl e
                     | Inr episode_number \<Rightarrow>
                         Inr (info\<lparr>series_name := Some (strip (m ! 0)),
                                   season := Some season_number,
                                   episode := Some episode_number\<rparr>)))
           | Series_episode \<Rightarrow>
               (case py_int (m ! 1) of
                  Inl e \<Rightarrow> Inl e
                | Inr episode_number \<Rightarrow>
                    Inr (info\<lparr>series_name := Some (strip (m ! 0)),
                              episode := Some episode_number\<rparr>))))"

text \<open>\<open>re.findall(r'\d+', s)\<close>: the maximal runs of digits, left to right; \<open>cur\<close>
  is the run being read.\<close>

fun findall_digits :: "string \<Rightarrow> string \<Rightarrow> string list" where
  "findall_digits [] cur = (if cur = [] then [] else [cur])"
| "findall_digits (c # cs) cur =
     (if is_digit c then findall_digits cs (cur @ [c])
      else (if cur = [] then [] else [cur]) @ findall_digits cs [])"

text \<open>
  \<open>re.sub(r'\s*\d+\s*$', '', s)\<close>: the only match ends at the end of the string
  (the greedy \<open>\s*\<close> takes a final newline too) and starts at the whitespace before
  the last run of digits; it exists when, trailing whitespace apart, the string ends
  with a digit.
\<close>

definition sub_trailing_number :: "string \<Rightarrow> string" where
  "sub_trailing_number s =
     (let r1 = dropWhile is_space (rev s)
      in if r1 \<noteq> [] \<and> is_digit (hd r1)
         then rev (dropWhile is_space (dropWhile is_digit r1))
         else s)"

definition extract_episode_info :: "string \<Rightarrow> py_error + episode_info" where
  "extract_episode_info filename =
     (let clean_name = strip_video_ext filename;
          episode_info = \<lparr>original_filename = filename, clean_title = clean_name,
                          season = None, episode = None, series_name = None\<rparr>
      in case apply_patterns patterns clean_name episode_info of
           Inl e \<Rightarrow> Inl e
         | Inr matched \<Rightarrow>
             if series_name matched = None \<or> series_name matched = Some []
             then (let numbers = findall_digits clean_name []
                   in if numbers \<noteq> []
                      then (case py_int (last numbers) of
                              Inl e \<Rightarrow> Inl e
                            | Inr episode_number \<Rightarrow>
                                let with_episode = matched\<lparr>episode := Some episode_number\<rparr>;
                                    series_match = sub_trailing_number clean_name
                                in if series_match \<noteq> []
                                   then Inr (with_episode\<lparr>series_name := Some (strip series_match)\<rparr>)
                                   else Inr with_episode)
                      else Inr matched)
             else Inr matched)"

section \<open>Series grouping and navigation\<close>

text \<open>
  A file record of the directory scan. The keys \<open>size\<close>, \<open>modified\<close>,
  \<open>thumbnail\<close> and \<open>full_path\<close> are carried along unread; the last three are left
  out. \<open>info\<close> holds the episode keys once they have been merged into the
  record, and \<open>series_key\<close> is the key of that name, \<open>None\<close> while absent.
\<close>

record file_data =
  filename :: string
  relative_path :: string
  folder :: string
  file_type :: string
  size_bytes :: nat
  info :: "episode_info option"
  series_key :: "string option"

datatype key_part = KStr string | KInt int

text \<open>The parts of a sort key alternate between text and number, starting with
  text, so two keys are only ever compared text with text and number with number;
  the order between a number and a text is never used.\<close>

instantiation key_part :: linorder
begin

fun less_eq_key_part :: "key_part \<Rightarrow> key_part \<Rightarrow> bool" where
  "less_eq_key_part (KStr a) (KStr b) = (a \<le> b)"
| "less_eq_key_part (KInt a) (KInt b) = (a \<le> b)"
| "less_eq_key_part (KInt a) (KStr b) = True"
| "less_eq_key_part (KStr a) (KInt b) = False"

definition less_key_part :: "key_part \<Rightarrow> key_part \<Rightarrow> bool" where
  "less_key_part x y = (x \<le> y \<and> \<not> y \<le> x)"

instance
proof
  fix x y z :: key_part
  show "(x < y) = (x \<le> y \<and> \<not> y \<le> x)"
    by (simp add: less_key_part_def)
  show "x \<le> x"
    by (cases x) simp_all
  show "x \<le> y \<Longrightarrow> y \<le> z \<Longrightarrow> x \<le> z"
    by (cases x; cases y; cases z) auto
  show "x \<le> y \<Longrightarrow> y \<le> x \<Longrightarrow> x = y"
    by (cases x; cases y) auto
  show "x \<le> y \<or> y \<le> x"
    by (cases x; cases y) auto
qed

end

text \<open>\<open>re.split('([0-9]+)', text)\<close>: the text between the digit runs and the runs
  themselves, alternating, text first and last.\<close>

fun split_digits :: "string \<Rightarrow> string \<Rightarrow> bool \<Rightarrow> string list" where
  "split_digits [] cur in_digits = (if in_digits then [cur, []] else [cur])"
| "split_digits (c # cs) cur in_digits =
     (if is_digit c = in_digits then split_digits cs (cur @ [c]) in_digits
      else cur # split_digits cs [c] (\<not> in_digits))"

text \<open>\<open>convert\<close>: a part for which \<open>str.isdigit\<close> holds goes through \<open>int\<close>, which
  raises \<open>ValueError\<close> on a superscript digit and on more than 4300 digits.\<close>

definition convert :: "string \<Rightarrow> py_error + key_part" where
  "convert text_part =
     (if text_part \<noteq> [] \<and> list_all py_isdigit_char text_part
      then (if list_all is_digit text_part
            then (case py_int text_part of Inl e \<Rightarrow> Inl e | Inr n \<Rightarrow> Inr (KInt n))
            else Inl ValueError)
      else Inr (KStr (lower text_part)))"

fun collect :: "(py_error + 'a) list \<Rightarrow> py_error + 'a list" where
  "collect [] = Inr []"
| "collect (x # xs) =
     (case x of
        Inl e \<Rightarrow> Inl e
      | Inr v \<Rightarrow> (case collect xs of Inl e \<Rightarrow> Inl e | Inr vs \<Rightarrow> Inr (v # vs)))"

definition natural_sort_key :: "string \<Rightarrow> py_error + key_part list" where
  "natural_sort_key text = collect (map convert (split_digits text [] False))"

definition get_season :: "file_data \<Rightarrow> int option" where
  "get_season x = (case info x of None \<Rightarrow> None | Some i \<Rightarrow> season i)"

definition get_episode :: "file_data \<Rightarrow> int option" where
  "get_episode x = (case info x of None \<Rightarrow> None | Some i \<Rightarrow> episode i)"

text \<open>\<open>v or 0\<close> on an optional integer.\<close>

definition or_zero :: "int option \<Rightarrow> int" where
  "or_zero v = (case v of None \<Rightarrow> 0 | Some n \<Rightarrow> n)"

text \<open>The sort key of one record of a group.\<close>

definition episode_sort_key :: "file_data \<Rightarrow> py_error + (int \<times> int \<times> key_part list)" where
  "episode_sort_key x =
     (case natural_sort_key (filename x) of
        Inl e \<Rightarrow> Inl e
      | Inr k \<Rightarrow> Inr (or_zero (get_season x), or_zero (get_episode x), k))"

text \<open>\<open>list.sort(key=...)\<close>: every key is computed first, then the list is sorted
  stably by key.\<close>

definition sort_episodes :: "file_data list \<Rightarrow> py_error + file_data list" where
  "sort_episodes xs =
     (case collect (map episode_sort_key xs) of
        Inl e \<Rightarrow> Inl e
      | Inr ks \<Rightarrow> Inr (map snd (sort_key fst (zip ks xs))))"

definition replace_slash :: "string \<Rightarrow> string" where
  "replace_slash s = map (\<lambda>c. if c = CHR ''/'' then CHR '' '' else c) s"

text \<open>
  The series key of a video record. \<open>episode_info.get('series_name', '')\<close> is
  \<open>None\<close> when no series name was found, since the key is always present, and
  \<open>.strip()\<close> on it raises \<open>AttributeError\<close>; it is only evaluated when the
  stripped folder is empty.
\<close>

definition series_key_of :: "file_data \<Rightarrow> episode_info \<Rightarrow> py_error + string" where
  "series_key_of file_data episode_info =
     (let chosen =
            (if strip (folder file_data) \<noteq> [] then Inr (strip (folder file_data))
             else (case series_name episode_info of
                     None \<Rightarrow> Inl AttributeError
                   | Some sn \<Rightarrow>
                       if strip sn \<noteq> [] then Inr (strip sn) else Inr ''Unknown Series''))
      in case chosen of
           Inl e \<Rightarrow> Inl e
         | Inr k \<Rightarrow>
             let k2 = strip (replace_slash k)
             in Inr (if k2 = [] then ''Unknown Series'' else k2))"

text \<open>The dictionary of groups, in insertion order.\<close>

type_synonym series_groups = "(string \<times> file_data list) list"

fun append_to_group :: "string \<Rightarrow> file_data \<Rightarrow> series_groups \<Rightarrow> series_groups" where
  "append_to_group k x [] = [(k, [x])]"
| "append_to_group k x ((k2, xs) # gs) =
     (if k2 = k then (k2, xs @ [x]) # gs else (k2, xs) # append_to_group k x gs)"

fun group_loop :: "file_data list \<Rightarrow> series_groups \<Rightarrow> py_error + series_groups" where
  "group_loop [] series_groups = Inr series_groups"
| "group_loop (file_data # files) series_groups =
     (if file_type file_data \<noteq> ''video'' then group_loop files series_groups
      else (case extract_episode_info (filename file_data) of
              Inl e \<Rightarrow> Inl e
            | Inr episode_info \<Rightarrow>
                (case series_key_of file_data episode_info of
                   Inl e \<Rightarrow> Inl e
                 | Inr k \<Rightarrow>
                     group_loop files
                       (append_to_group k
                          (file_data\<lparr>info := Some episode_info, series_key := Some k\<rparr>)
                          series_groups))))"

fun sort_groups :: "series_groups \<Rightarrow> py_error + series_groups" where
  "sort_groups [] = Inr []"
| "sort_groups ((k, xs) # gs) =
     (case sort_episodes xs of
        Inl e \<Rightarrow> Inl e
      | Inr ys \<Rightarrow> (case sort_groups gs of Inl e \<Rightarrow> Inl e | Inr hs \<Rightarrow> Inr ((k, ys) # hs)))"

definition group_files_by_series :: "file_data list \<Rightarrow> py_error + series_groups" where
  "group_files_by_series files =
     (case group_loop files [] of
        Inl e \<Rightarrow> Inl e
      | Inr series_groups \<Rightarrow> sort_groups series_groups)"

text \<open>\<open>get_enhanced_media_files\<close>, applied to the records of the directory scan:
  the episode keys are merged into the video records, one record after the other, and
  the list is sorted by the natural key of the file name. No \<open>series_key\<close> is set.\<close>

definition update_with_episode_info :: "file_data \<Rightarrow> py_error + file_data" where
  "update_with_episode_info file_data =
     (if file_type file_data = ''video''
      then (case extract_episode_info (filename file_data) of
              Inl e \<Rightarrow> Inl e
            | Inr episode_info \<Rightarrow> Inr (file_data\<lparr>info := Some episode_info\<rparr>))
      else Inr file_data)"

definition get_enhanced_media_files :: "file_data list \<Rightarrow> py_error + file_data list" where
  "get_enhanced_media_files media_files =
     (case collect (map update_with_episode_info media_files) of
        Inl e \<Rightarrow> Inl e
      | Inr updated \<Rightarrow>
          (case collect (map (\<lambda>x. natural_sort_key (filename x)) updated) of
             Inl e \<Rightarrow> Inl e
           | Inr ks \<Rightarrow> Inr (map snd (sort_key fst (zip ks updated)))))"

text \<open>The index of the first episode with the given file name.\<close>

fun current_index_of :: "string \<Rightarrow> file_data list \<Rightarrow> nat option" where
  "current_index_of name [] = None"
| "current_index_of name (e # es) =
     (if filename e = name then Some 0 else map_option Suc (current_index_of name es))"

text \<open>The group the navigation looks in: the one named by the record's own
  \<open>series_key\<close>.\<close>

definition series_episodes_of :: "file_data \<Rightarrow> series_groups \<Rightarrow> file_data list option" where
  "series_episodes_of current_file series_groups =
     (case series_key current_file of
        None \<Rightarrow> None
      | Some k \<Rightarrow> if k = [] then None else map_of series_groups k)"

definition find_next_episode :: "file_data \<Rightarrow> file_data list \<Rightarrow> py_error + file_data option" where
  "find_next_episode current_file all_files =
     (if file_type current_file \<noteq> ''video'' then Inr None
      else (case group_files_by_series all_files of
              Inl e \<Rightarrow> Inl e
            | Inr series_groups \<Rightarrow>
                (case series_episodes_of current_file series_groups of
                   None \<Rightarrow> Inr None
                 | Some series_episodes \<Rightarrow>
                     (case current_index_of (filename current_file) series_episodes of
                        None \<Rightarrow> Inr None
                      | Some i \<Rightarrow>
                          if i + 1 < length series_episodes
                          then Inr (Some (series_episodes ! (i + 1)))
                          else Inr None))))"

definition find_previous_episode :: "file_data \<Rightarrow> file_data list \<Rightarrow> py_error + file_data option" where
  "find_previous_episode current_file all_files =
     (if file_type current_file \<noteq> ''video'' then Inr None
      else (case group_files_by_series all_files of
              Inl e \<Rightarrow> Inl e
            | Inr series_groups \<Rightarrow>
                (case series_episodes_of current_file series_groups of
                   None \<Rightarrow> Inr None
                 | Some series_episodes \<Rightarrow>
                     (case current_index_of (filename current_file) series_episodes of
                        None \<Rightarrow> Inr None
                      | Some i \<Rightarrow>
                          if 0 < i then Inr (Some (series_episodes ! (i - 1)))
                          else Inr None))))"

text \<open>
  Records for the examples: a video as the directory scan lists it, the same record once
  \<open>get_enhanced_media_files\<close> has merged the episode keys into it, and as it stands in
  a group, with its \<open>series_key\<close>. \<open>scanned_episodes\<close> is a scan of three episodes
  of one series and \<open>enhanced_episodes\<close> what \<open>get_enhanced_media_files\<close> makes of it.
\<close>

definition scan_record :: "string \<Rightarrow> string \<Rightarrow> file_data" where
  "scan_record name fld =
     \<lparr>filename = name,
      relative_path = (if fld = [] then name else fld @ ''/'' @ name),
      folder = fld, file_type = ''video'', size_bytes = 0,
      info = None, series_key = None\<rparr>"

definition enhanced_record :: "string \<Rightarrow> string \<Rightarrow> file_data" where
  "enhanced_record name fld =
     (case update_with_episode_info (scan_record name fld) of
        Inl e \<Rightarrow> scan_record name fld
      | Inr file_data \<Rightarrow> file_data)"

definition grouped_record :: "string \<Rightarrow> string \<Rightarrow> string \<Rightarrow> file_data" where
  "grouped_record name fld k = (enhanced_record name fld)\<lparr>series_key := Some k\<rparr>"

definition scanned_episodes :: "file_data list" where
  "scanned_episodes =
     [scan_record ''Show S01E02.mp4'' ''Show'', scan_record ''Show S01E01.mp4'' ''Show'',
      scan_record ''Show S01E10.mp4'' ''Show'']"

definition enhanced_episodes :: "file_data list" where
  "enhanced_episodes =
     [enhanced_record ''Show S01E01.mp4'' ''Show'', enhanced_record ''Show S01E02.mp4'' ''Show'',
      enhanced_record ''Show S01E10.mp4'' ''Show'']"

section \<open>Properties of the matcher\<close>

lemma rmatch_lit_cons:
  "rmatch False (lit (x # xs) @ r) (x # s) opens caps = rmatch False (lit xs @ r) s opens caps"
  by (simp add: lit_def split: option.splits)

lemma lit_Nil: "lit [] = []"
  by (simp add: lit_def)

lemma rmatch_lit_prefix:
  "rmatch False (lit xs @ r) (xs @ s) opens caps = rmatch False r s opens caps"
proof (induction xs)
  case Nil
  show ?case by (simp add: lit_def)
next
  case (Cons x xs)
  then show ?case by (simp only: append_Cons rmatch_lit_cons)
qed

lemma takeWhile_digits:
  assumes "\<forall>c\<in>set ds. is_digit c" and "s = [] \<or> \<not> is_digit (hd s)"
  shows "takeWhile is_digit (ds @ s) = ds"
proof -
  have "takeWhile is_digit s = []"
    using assms(2) by (cases s) auto
  with assms(1) show ?thesis by (simp add: takeWhile_append2)
qed

lemma cmatch_Dig: "cmatch ic Dig = is_digit"
  by (rule ext) simp

lemma rmatch_plus_digits:
  assumes "\<forall>c\<in>set ds. is_digit c" and "ds \<noteq> []" and "s = [] \<or> \<not> is_digit (hd s)"
    and "rmatch ic r s opens caps = Some res"
  shows "rmatch ic (Atom Dig Plus # r) (ds @ s) opens caps = Some res"
proof -
  have n: "length (takeWhile (cmatch ic Dig) (ds @ s)) = length ds"
    using takeWhile_digits [OF assms(1) assms(3)] by (simp add: cmatch_Dig)
  obtain m where m: "length ds = Suc m"
    using assms(2) by (cases ds) auto
  show ?thesis
    using assms(4) by (simp add: n m)
qed

lemma rmatch_star_digits:
  assumes "\<forall>c\<in>set ds. is_digit c" and "s = [] \<or> \<not> is_digit (hd s)"
    and "rmatch ic r s opens caps = Some res"
  shows "rmatch ic (Atom Dig Star # r) (ds @ s) opens caps = Some res"
proof -
  have n: "length (takeWhile (cmatch ic Dig) (ds @ s)) = length ds"
    using takeWhile_digits [OF assms(1) assms(2)] by (simp add: cmatch_Dig)
  show ?thesis
    using assms(3) by (simp add: n)
qed

lemma range_pattern_canonical:
  assumes d1: "\<forall>c\<in>set ds1. is_digit c" and ne: "ds1 \<noteq> []" and d2: "\<forall>c\<in>set ds2. is_digit c"
  shows "rsearch False range_pattern (''bytes='' @ ds1 @ ''-'' @ ds2) = Some [ds1, ds2]"
proof -
  have tail: "rmatch False [GClose] [] [ds2] [ds1] = Some ([ds1, ds2], [])"
    by simp
  have star: "rmatch False (Atom Dig Star # [GClose]) (ds2 @ []) [ds2] [ds1]
      = Some ([ds1, ds2], [])"
    by (rule rmatch_star_digits [OF d2 _ tail]) simp
  have dash: "rmatch False (lit ''-'' @ grp [Atom Dig Star]) (''-'' @ ds2) [] [ds1]
      = Some ([ds1, ds2], [])"
    using star by (simp add: lit_def grp_def)
  have close1: "rmatch False (GClose # lit ''-'' @ grp [Atom Dig Star]) (''-'' @ ds2)
      [ds1 @ ''-'' @ ds2] [] = Some ([ds1, ds2], [])"
    using dash by simp
  have plus: "rmatch False (Atom Dig Plus # GClose # lit ''-'' @ grp [Atom Dig Star])
      (ds1 @ ''-'' @ ds2) [ds1 @ ''-'' @ ds2] [] = Some ([ds1, ds2], [])"
    by (rule rmatch_plus_digits [OF d1 ne _ close1]) (simp add: is_digit_def)
  have whole: "rmatch False range_pattern (''bytes='' @ ds1 @ ''-'' @ ds2) [] []
      = Some ([ds1, ds2], [])"
    using plus by (simp add: range_pattern_def rmatch_lit_cons lit_Nil grp_def)
  show ?thesis
    using whole by simp
qed

section \<open>Decimal numerals\<close>

lemma digit_char_cases:
  assumes "d < (10::nat)"
  shows "is_digit (char_of (48 + d)) \<and> digit_val (char_of (48 + d)) = int d"
proof -
  from assms have "d \<in> {0, 1, 2, 3, 4, 5, 6, 7, 8, 9}" by auto
  then show ?thesis
    by (auto simp: is_digit_def digit_val_def char_of_def bit_simps)
qed

lemma decimal_value_snoc: "decimal_value (xs @ [c]) = 10 * decimal_value xs + digit_val c"
  by (simp add: decimal_value_def)

lemma decimal_value_str_nat: "decimal_value (str_nat n) = int n"
proof (induction n rule: str_nat.induct)
  case (1 n)
  show ?case
  proof (cases "n < 10")
    case True
    then show ?thesis
      using digit_char_cases [of n] by (subst str_nat.simps) (simp add: decimal_value_def)
  next
    case False
    have "decimal_value (str_nat n)
        = 10 * decimal_value (str_nat (n div 10)) + int (n mod 10)"
      using False digit_char_cases [of "n mod 10"]
      by (subst str_nat.simps) (simp add: decimal_value_snoc)
    also have "\<dots> = 10 * int (n div 10) + int (n mod 10)"
      using "1.IH" False by simp
    also have "\<dots> = int n"
      by (simp add: of_nat_div of_nat_mod)
    finally show ?thesis .
  qed
qed

lemma str_nat_digits: "\<forall>c\<in>set (str_nat n). is_digit c"
proof (induction n rule: str_nat.induct)
  case (1 n)
  show ?case
  proof (cases "n < 10")
    case True
    then show ?thesis using digit_char_cases [of n] by (subst str_nat.simps) simp
  next
    case False
    then show ?thesis
      using "1.IH" digit_char_cases [of "n mod 10"]
      by (subst str_nat.simps) simp
  qed
qed

lemma str_nat_nonempty: "str_nat n \<noteq> []"
  by (subst str_nat.simps) simp

text \<open>A number below \<open>10 ^ k\<close> has at most \<open>k\<close> digits.\<close>

lemma length_str_nat: "n < 10 ^ k \<Longrightarrow> 0 < k \<Longrightarrow> length (str_nat n) \<le> k"
proof (induction n arbitrary: k rule: str_nat.induct)
  case (1 n)
  show ?case
  proof (cases "n < 10")
    case True
    then show ?thesis using "1.prems" by (subst str_nat.simps) simp
  next
    case False
    obtain j where k: "k = Suc j"
      using "1.prems"(2) by (cases k) auto
    have "j \<noteq> 0"
      using False "1.prems"(1) by (cases j) (simp_all add: k)
    moreover have "n div 10 < 10 ^ j"
      using "1.prems"(1) by (simp add: k less_mult_imp_div_less mult.commute)
    ultimately have "length (str_nat (n div 10)) \<le> j"
      using "1.IH" [OF False, of j] by simp
    then show ?thesis
      using False by (subst str_nat.simps) (simp add: k)
  qed
qed

lemma INT_MAX_STR_DIGITS_pos: "0 < INT_MAX_STR_DIGITS"
  by (simp add: INT_MAX_STR_DIGITS_def)

lemma py_int_str_nat:
  assumes "n < 10 ^ INT_MAX_STR_DIGITS"
  shows "py_int (str_nat n) = Inr (int n)"
proof -
  have "length (str_nat n) \<le> INT_MAX_STR_DIGITS"
    by (rule length_str_nat [OF assms INT_MAX_STR_DIGITS_pos])
  then show ?thesis
    by (simp add: py_int_def decimal_value_str_nat)
qed

lemma off_t_below_limit: "(2::nat) ^ 63 \<le> 10 ^ INT_MAX_STR_DIGITS"
proof -
  have "(2::nat) ^ 63 \<le> 10 ^ 63"
    by (rule power_mono) simp_all
  also have "\<dots> \<le> 10 ^ INT_MAX_STR_DIGITS"
    by (rule power_increasing) (simp_all add: INT_MAX_STR_DIGITS_def)
  finally show ?thesis .
qed

lemma small_below_limit: "n < 10 ^ 63 \<Longrightarrow> (n::nat) < 10 ^ INT_MAX_STR_DIGITS"
proof -
  assume "n < 10 ^ 63"
  also have "(10::nat) ^ 63 \<le> 10 ^ INT_MAX_STR_DIGITS"
    by (rule power_increasing) (simp_all add: INT_MAX_STR_DIGITS_def)
  finally show ?thesis .
qed

section \<open>Properties of range streaming\<close>

lemma contents_length: "length (contents f) < 2 ^ 63"
  using contents [of f] by simp

lemma contents_disk_file: "length xs < 2 ^ 63 \<Longrightarrow> contents (disk_file xs) = xs"
  by (simp add: disk_file_inverse)

lemma concat_read_chunks:
  "concat (read_chunks f pos remaining) = take (nat remaining) (drop pos f)"
proof (induction f pos remaining rule: read_chunks.induct)
  case (1 f pos remaining)
  show ?case
  proof (cases "remaining > 0")
    case False
    then show ?thesis by (subst read_chunks.simps) simp
  next
    case pos_rem: True
    define k where "k = nat (min CHUNK_SIZE remaining)"
    define chunk where "chunk = take k (drop pos f)"
    have k_pos: "0 < k" and k_le: "k \<le> nat remaining"
      using pos_rem by (simp_all add: k_def CHUNK_SIZE_def)
    show ?thesis
    proof (cases "chunk = []")
      case True
      then have "drop pos f = []"
        using k_pos by (cases "drop pos f") (auto simp: chunk_def)
      then show ?thesis
        using pos_rem True by (subst read_chunks.simps) (simp add: chunk_def k_def Let_def)
    next
      case False
      have IH: "concat (read_chunks f (pos + length chunk) (remaining - int (length chunk)))
          = take (nat (remaining - int (length chunk))) (drop (pos + length chunk) f)"
        using "1.IH" [OF pos_rem, of chunk] False by (simp add: chunk_def k_def)
      have len: "length chunk = min k (length f - pos)"
        by (simp add: chunk_def)
      have "concat (read_chunks f pos remaining)
          = chunk @ concat (read_chunks f (pos + length chunk) (remaining - int (length chunk)))"
        using pos_rem False by (subst read_chunks.simps) (simp add: chunk_def k_def Let_def)
      also have "\<dots> = chunk @ take (nat remaining - length chunk) (drop (length chunk) (drop pos f))"
      proof -
        have "nat (remaining - int (length chunk)) = nat remaining - length chunk"
          by arith
        then show ?thesis using IH by (simp add: add.commute)
      qed
      also have "\<dots> = take (nat remaining) (drop pos f)"
      proof (cases "k \<le> length f - pos")
        case True
        then have lk: "length chunk = k" using len by simp
        have "take (nat remaining) (drop pos f)
            = take k (drop pos f) @ take (nat remaining - k) (drop k (drop pos f))"
          using k_le by (metis le_add_diff_inverse take_add)
        then show ?thesis using True by (simp add: chunk_def min_absorb2)
      next
        case False
        then have "chunk = drop pos f" by (simp add: chunk_def)
        then show ?thesis using k_le False by simp
      qed
      finally show ?thesis .
    qed
  qed
qed


lemma read_chunks_nonpositive: "remaining \<le> 0 \<Longrightarrow> read_chunks f pos remaining = []"
  by (subst read_chunks.simps) simp

lemma seek_inside_file:
  "0 \<le> pos \<Longrightarrow> pos \<le> int (length f) \<Longrightarrow> length f < 2 ^ 63 \<Longrightarrow> seek_error f m pos = None"
  by (auto simp: seek_error_def)

lemma respond_fields:
  assumes "h \<noteq> []" and "parse_range (Some h) (int (length f)) = Inr (bs, pe)"
  shows "\<exists>r. respond g p f (Some h) d m = Inr r
    \<and> status_code r = 206
    \<and> header r ''Content-Range'' =
        Some (''bytes '' @ py_str bs @ ''-'' @ py_str (min pe (int (length f) - 1))
              @ ''/'' @ py_str (int (length f)))
    \<and> header r ''Content-Length'' = Some (py_str (min pe (int (length f) - 1) - bs + 1))
    \<and> body r = fst (generate f m bs (min pe (int (length f) - 1) - bs + 1))
    \<and> body_error r = snd (generate f m bs (min pe (int (length f) - 1) - bs + 1))"
  using assms by (simp add: respond_def Let_def header_def)

lemma respond_no_range:
  "\<exists>r. respond g p f None d m = Inr r
    \<and> status_code r = 200
    \<and> header r ''Content-Range'' = None
    \<and> header r ''Content-Length'' = Some (py_str (int (length f)))
    \<and> body r = fst (generate f m 0 (int (length f)))
    \<and> body_error r = snd (generate f m 0 (int (length f)))"
  by (simp add: respond_def Let_def header_def parse_range_def)

lemma respond_parse_error:
  "parse_range h (int (length f)) = Inl e \<Longrightarrow> respond g p f h d m = Inl (Abort 500)"
  by (simp add: respond_def Let_def)

lemma py_str_nonneg: "0 \<le> i \<Longrightarrow> py_str i = str_nat (nat i)"
  by (simp add: py_str_def)

lemma parse_range_canonical:
  assumes "0 \<le> start" and "0 \<le> e"
    and "start < 10 ^ INT_MAX_STR_DIGITS" and "e < 10 ^ INT_MAX_STR_DIGITS"
  shows "parse_range (Some (range_header_of start e)) n = Inr (start, e)"
proof -
  have "rsearch False range_pattern (''bytes='' @ str_nat (nat start) @ ''-'' @ str_nat (nat e))
      = Some [str_nat (nat start), str_nat (nat e)]"
    by (rule range_pattern_canonical) (simp_all add: str_nat_digits str_nat_nonempty)
  moreover have "nat start < 10 ^ INT_MAX_STR_DIGITS" "nat e < 10 ^ INT_MAX_STR_DIGITS"
    using assms by (simp_all add: nat_less_iff)
  ultimately show ?thesis
    using assms(1,2)
    by (simp add: parse_range_def range_header_of_def py_str_nonneg py_int_str_nat
        str_nat_nonempty)
qed

lemma range_header_of_nonempty: "range_header_of start e \<noteq> []"
  by (simp add: range_header_of_def)

lemma range_response:
  assumes "0 \<le> start" and "start \<le> int (length (contents f)) - 1" and "0 \<le> e"
    and "e < 10 ^ INT_MAX_STR_DIGITS"
  shows "\<exists>r. stream_file_with_ranges g p (Some f) (Some (range_header_of start e)) d m = Inr r
    \<and> status_code r = 206
    \<and> header r ''Content-Range'' =
        Some (''bytes '' @ py_str start @ ''-'' @ py_str (min e (int (length (contents f)) - 1))
              @ ''/'' @ py_str (int (length (contents f))))
    \<and> header r ''Content-Length'' =
        Some (py_str (min e (int (length (contents f)) - 1) - start + 1))
    \<and> body_bytes r =
        take (nat (min e (int (length (contents f)) - 1) - start + 1))
          (drop (nat start) (contents f))
    \<and> body_error r = None"
proof -
  have "nat start < 2 ^ 63"
    using assms(1,2) contents_length [of f] by simp
  then have "nat start < 10 ^ INT_MAX_STR_DIGITS"
    by (rule order.strict_trans2 [OF _ off_t_below_limit])
  then have lim: "start < 10 ^ INT_MAX_STR_DIGITS"
    using assms(1) by (simp add: nat_less_iff)
  have pr: "parse_range (Some (range_header_of start e)) (int (length (contents f)))
      = Inr (start, e)"
    by (rule parse_range_canonical [OF assms(1) assms(3) lim assms(4)])
  have sk: "seek_error (contents f) m start = None"
    using assms(1,2) contents_length [of f] by (simp add: seek_inside_file)
  show ?thesis
    using respond_fields [OF range_header_of_nonempty pr, of g p d m]
    by (auto simp: stream_file_with_ranges_def generate_def sk body_bytes_def concat_read_chunks)
qed




lemma py_str_examples:
  "py_str 100 = ''100''" "py_str 199 = ''199''" "py_str 900 = ''900''" "py_str 999 = ''999''"
  "py_str 1000 = ''1000''"
  by (simp_all add: py_str_def str_nat.simps char_of_def bit_simps)

lemma py_int_too_long: "INT_MAX_STR_DIGITS < length s \<Longrightarrow> py_int s = Inl ValueError"
  by (simp add: py_int_def)






lemma range_body_eq:
  assumes "0 \<le> s" and "s \<le> int (length (contents f)) - 1" and "0 \<le> e"
    and "e < 10 ^ INT_MAX_STR_DIGITS"
  shows "range_body g p f d m (s, e)
    = take (nat (min e (int (length (contents f)) - 1) - s + 1)) (drop (nat s) (contents f))"
  using range_response [OF assms, of g p d m] by (auto simp: range_body_def)

lemma covers_bounds:
  "covers lo n rs \<Longrightarrow> 0 \<le> lo \<Longrightarrow>
   \<forall>se\<in>set rs. 0 \<le> fst se \<and> fst se \<le> snd se \<and> snd se \<le> n - 1"
proof (induction rs arbitrary: lo)
  case Nil
  show ?case by simp
next
  case (Cons se rs)
  obtain s e where se: "se = (s, e)" by (cases se)
  from Cons.prems have "s = lo" "s \<le> e" "e \<le> n - 1" "covers (e + 1) n rs"
    by (simp_all add: se)
  moreover from this Cons.prems(2) have "0 \<le> e + 1" by simp
  ultimately show ?case
    using Cons.IH [of "e + 1"] Cons.prems(2) by (simp add: se)
qed

lemma inside_file_below_limit:
  assumes "e \<le> int (length (contents f)) - 1"
  shows "e < 10 ^ INT_MAX_STR_DIGITS"
proof -
  have "int (length (contents f)) < 2 ^ 63"
    using contents_length [of f] by simp
  with assms have "e < 2 ^ 63" by simp
  also have "(2::int) ^ 63 \<le> 10 ^ 63"
    by (rule power_mono) simp_all
  also have "(10::int) ^ 63 \<le> 10 ^ INT_MAX_STR_DIGITS"
    by (rule power_increasing) (simp_all add: INT_MAX_STR_DIGITS_def)
  finally show ?thesis .
qed

lemma covers_concat:
  "covers lo (int (length (contents f))) rs \<Longrightarrow> 0 \<le> lo \<Longrightarrow>
   concat (map (range_body g p f d m) rs) = drop (nat lo) (contents f)"
proof (induction rs arbitrary: lo)
  case Nil
  then show ?case by simp
next
  case (Cons se rs)
  obtain s e where se: "se = (s, e)" by (cases se)
  from Cons.prems have s: "s = lo" and le: "s \<le> e"
    and hi: "e \<le> int (length (contents f)) - 1"
    and rest: "covers (e + 1) (int (length (contents f))) rs"
    by (simp_all add: se)
  have e0: "0 \<le> e" using s le Cons.prems(2) by simp
  have s0: "0 \<le> s" using s Cons.prems(2) by simp
  have shi: "s \<le> int (length (contents f)) - 1" using le hi by simp
  have "range_body g p f d m (s, e)
      = take (nat (min e (int (length (contents f)) - 1) - s + 1)) (drop (nat s) (contents f))"
    by (rule range_body_eq [OF s0 shi e0 inside_file_below_limit [OF hi]])
  then have body: "range_body g p f d m (s, e)
      = take (nat (e - s + 1)) (drop (nat s) (contents f))"
    using hi by (simp add: min_absorb1)
  have tail: "concat (map (range_body g p f d m) rs) = drop (nat (e + 1)) (contents f)"
    using Cons.IH [OF rest] e0 by simp
  have split: "nat (e + 1) = nat (e - s + 1) + nat s"
    using s le Cons.prems(2) by simp
  have "concat (map (range_body g p f d m) (se # rs))
      = take (nat (e - s + 1)) (drop (nat s) (contents f))
        @ drop (nat (e - s + 1)) (drop (nat s) (contents f))"
    by (simp add: se body tail split)
  also have "\<dots> = drop (nat s) (contents f)"
    by (rule append_take_drop_id)
  finally show ?case by (simp only: s)
qed

text \<open>
  Claim C2. For a file of size \<open>N\<close>, the bodies returned by range requests whose
  intervals \<open>[start, end]\<close> partition \<open>[0, N - 1]\<close> in order, concatenated, are the
  file, byte for byte; each request is answered with status 206 and its body is produced
  without an exception.
\<close>

theorem sequential_ranges_reconstruct_file:
  assumes "covers 0 (int (length (contents f))) rs"
  shows "(\<forall>se\<in>set rs.
            \<exists>r. stream_file_with_ranges g p (Some f)
                   (Some (range_header_of (fst se) (snd se))) d m = Inr r
              \<and> status_code r = 206
              \<and> body_error r = None
              \<and> body_bytes r = range_body g p f d m se)
         \<and> concat (map (range_body g p f d m) rs) = contents f"
proof
  show "\<forall>se\<in>set rs.
            \<exists>r. stream_file_with_ranges g p (Some f)
                   (Some (range_header_of (fst se) (snd se))) d m = Inr r
              \<and> status_code r = 206
              \<and> body_error r = None
              \<and> body_bytes r = range_body g p f d m se"
  proof
    fix se assume "se \<in> set rs"
    then have b: "0 \<le> fst se" "fst se \<le> snd se" "snd se \<le> int (length (contents f)) - 1"
      using covers_bounds [OF assms] by simp_all
    then have "0 \<le> snd se" "fst se \<le> int (length (contents f)) - 1"
      by simp_all
    then show "\<exists>r. stream_file_with_ranges g p (Some f)
                   (Some (range_header_of (fst se) (snd se))) d m = Inr r
              \<and> status_code r = 206
              \<and> body_error r = None
              \<and> body_bytes r = range_body g p f d m se"
      using range_response [of "fst se" f "snd se" g p d m] b(1)
        inside_file_below_limit [OF b(3)]
      by (auto simp: range_body_def)
  qed
  show "concat (map (range_body g p f d m) rs) = contents f"
    using covers_concat [OF assms, of g p d m] by simp
qed

theorem sequential_ranges_reconstruct_file_witness:
  "covers 0 (int (length (contents (disk_file [1, 2, 3, 4, 5])))) [(0, 1), (2, 2), (3, 4)]
   \<and> concat (map (range_body no_guess ''/mnt/media/Movies/a.mp4'' (disk_file [1, 2, 3, 4, 5])
                    None 0)
        [(0, 1), (2, 2), (3, 4)]) = [1, 2, 3, 4, 5]"
proof -
  have c: "contents (disk_file [1, 2, 3, 4, 5]) = [1, 2, 3, 4, 5]"
    by (rule contents_disk_file) simp
  show ?thesis
    using sequential_ranges_reconstruct_file
      [of "disk_file [1, 2, 3, 4, 5]" "[(0, 1), (2, 2), (3, 4)]" no_guess
          "''/mnt/media/Movies/a.mp4''" None 0]
    by (simp add: c)
qed

lemma malformed_abc: "rsearch False range_pattern ''bytes=abc-'' = None"
  by code_simp

lemma respond_abc:
  "status_of (respond no_guess ''/mnt/media/Movies/a.mp4'' [1, 2, 3] (Some ''bytes=abc-'')
      None 0) = Some 206"
  "header_of (respond no_guess ''/mnt/media/Movies/a.mp4'' [1, 2, 3] (Some ''bytes=abc-'')
      None 0) ''Content-Range'' = Some ''bytes 0-2/3''"
  "status_of (respond no_guess ''/mnt/media/Movies/a.mp4'' [1, 2, 3] None None 0) = Some 200"
  "header_of (respond no_guess ''/mnt/media/Movies/a.mp4'' [1, 2, 3] None None 0)
      ''Content-Range'' = None"
  by code_simp+

lemma contents_123: "contents (disk_file [1, 2, 3]) = [1, 2, 3]"
  by (rule contents_disk_file) simp

text \<open>
  A header that is present and does not match is not answered like a request without
  the header: for \<open>Range: bytes=abc-\<close> on a 3-byte file the status is 206 and
  \<open>Content-Range: bytes 0-2/3\<close> is sent, where a request without the header gets
  status 200 and no \<open>Content-Range\<close>.
\<close>

theorem malformed_range_counterexample:
  "rsearch False range_pattern ''bytes=abc-'' = None
   \<and> status_of (stream_file_with_ranges no_guess ''/mnt/media/Movies/a.mp4''
        (Some (disk_file [1, 2, 3])) (Some ''bytes=abc-'') None 0) = Some 206
   \<and> header_of (stream_file_with_ranges no_guess ''/mnt/media/Movies/a.mp4''
        (Some (disk_file [1, 2, 3])) (Some ''bytes=abc-'') None 0) ''Content-Range''
       = Some ''bytes 0-2/3''
   \<and> status_of (stream_file_with_ranges no_guess ''/mnt/media/Movies/a.mp4''
        (Some (disk_file [1, 2, 3])) None None 0) = Some 200
   \<and> header_of (stream_file_with_ranges no_guess ''/mnt/media/Movies/a.mp4''
        (Some (disk_file [1, 2, 3])) None None 0) ''Content-Range'' = None"
  by (simp only: stream_file_with_ranges_def option.case contents_123 respond_abc malformed_abc
      simp_thms)

lemma py_str_small:
  "py_str 0 = ''0''" "py_str 2 = ''2''" "py_str 3 = ''3''" "py_str 7 = ''7''"
  "py_str (- 4) = ''-4''"
  by (simp_all add: py_str_def str_nat.simps char_of_def bit_simps)

lemma parse_range_malformed:
  "rsearch False range_pattern h = None \<Longrightarrow> parse_range (Some h) n = Inr (0, n - 1)"
  by (simp add: parse_range_def)

lemma generate_from_start:
  "length f < 2 ^ 63 \<Longrightarrow> generate f m 0 n = (read_chunks f 0 n, None)"
  by (simp add: generate_def seek_inside_file)

text \<open>
  Claim C3, amended. For a request whose \<open>Range\<close> header is present, non-empty and
  malformed (the search for \<open>bytes=<digits>-\<close> finds nothing), the operation serves
  the whole file and produces no error response: the body is the complete content,
  produced without an exception, and \<open>Content-Length\<close> is the file size, both as in
  the response to a request without the header. The status is 206 with
  \<open>Content-Range: bytes 0-<N-1>/<N>\<close>, where the request without the header gets 200
  and no \<open>Content-Range\<close>.
\<close>

theorem malformed_range_serves_whole_file:
  assumes "h \<noteq> []" and "rsearch False range_pattern h = None"
  shows "\<exists>r r0. stream_file_with_ranges g p (Some f) (Some h) d m = Inr r
    \<and> stream_file_with_ranges g p (Some f) None d m = Inr r0
    \<and> body_bytes r = contents f \<and> body r = body r0
    \<and> body_error r = None \<and> body_error r0 = None
    \<and> header r ''Content-Length'' = Some (py_str (int (length (contents f))))
    \<and> header r0 ''Content-Length'' = Some (py_str (int (length (contents f))))
    \<and> status_code r = 206
    \<and> header r ''Content-Range'' =
        Some (''bytes 0-'' @ py_str (int (length (contents f)) - 1) @ ''/''
              @ py_str (int (length (contents f))))
    \<and> status_code r0 = 200
    \<and> header r0 ''Content-Range'' = None"
proof -
  let ?f = "contents f"
  have pr: "parse_range (Some h) (int (length ?f)) = Inr (0, int (length ?f) - 1)"
    by (rule parse_range_malformed [OF assms(2)])
  have gen: "generate ?f m 0 (int (length ?f)) = (read_chunks ?f 0 (int (length ?f)), None)"
    by (rule generate_from_start [OF contents_length])
  from respond_fields [OF assms(1) pr, of g p d m] obtain r where
    r: "respond g p ?f (Some h) d m = Inr r" "status_code r = 206"
      "header r ''Content-Range'' =
        Some (''bytes '' @ py_str 0 @ ''-'' @ py_str (int (length ?f) - 1) @ ''/''
              @ py_str (int (length ?f)))"
      "header r ''Content-Length'' = Some (py_str (int (length ?f)))"
      "body r = read_chunks ?f 0 (int (length ?f))" "body_error r = None"
    by (auto simp: gen)
  from respond_no_range [of g p ?f d m] obtain r0 where
    r0: "respond g p ?f None d m = Inr r0" "status_code r0 = 200"
      "header r0 ''Content-Range'' = None"
      "header r0 ''Content-Length'' = Some (py_str (int (length ?f)))"
      "body r0 = read_chunks ?f 0 (int (length ?f))" "body_error r0 = None"
    by (auto simp: gen)
  have "body_bytes r = ?f"
    by (simp add: body_bytes_def r(5) concat_read_chunks)
  with r r0 show ?thesis
    by (simp add: stream_file_with_ranges_def py_str_small)
qed

theorem malformed_range_serves_whole_file_witness:
  "''bytes=abc-'' \<noteq> [] \<and> rsearch False range_pattern ''bytes=abc-'' = None
   \<and> (\<exists>r. stream_file_with_ranges no_guess ''/mnt/media/Movies/a.mp4''
             (Some (disk_file [1, 2, 3])) (Some ''bytes=abc-'') None 0 = Inr r
        \<and> body_bytes r = [1, 2, 3] \<and> body_error r = None \<and> status_code r = 206
        \<and> header r ''Content-Length'' = Some ''3''
        \<and> header r ''Content-Range'' = Some ''bytes 0-2/3'')"
proof -
  have n: "''bytes=abc-'' \<noteq> []"
    by simp
  show ?thesis
    using malformed_range_serves_whole_file
      [OF n malformed_abc, of no_guess "''/mnt/media/Movies/a.mp4''" "disk_file [1, 2, 3]"
          None 0] malformed_abc
    by (auto simp: py_str_small contents_123)
qed

lemma parse_range_1500: "parse_range (Some ''bytes=1500-'') 1000 = Inr (1500, 999)"
  by code_simp

lemma parse_range_7: "parse_range (Some ''bytes=7-'') 3 = Inr (7, 2)"
  by code_simp

lemma py_str_examples2: "py_str (- 500) = ''-500''" "py_str 1500 = ''1500''"
  by (simp_all add: py_str_def str_nat.simps char_of_def bit_simps)

lemma parse_range_off_t:
  "parse_range (Some (''bytes='' @ ''9223372036854775808'' @ ''-'' @ [])) 3
     = Inr (9223372036854775808, 2)"
proof -
  have m: "rsearch False range_pattern (''bytes='' @ ''9223372036854775808'' @ ''-'' @ [])
      = Some [''9223372036854775808'', []]"
    by (rule range_pattern_canonical) (simp_all add: is_digit_def)
  have v: "py_int ''9223372036854775808'' = Inr 9223372036854775808"
    by (simp add: py_int_def decimal_value_def digit_val_def INT_MAX_STR_DIGITS_def)
  show ?thesis
    unfolding parse_range_def
    by (simp only: m option.case nth_Cons_0 nth_Cons_Suc One_nat_def v sum.case
        if_True if_False not_False_eq_True append_is_Nil_conv list.distinct simp_thms)
      simp
qed

lemma parse_range_long_start:
  "parse_range (Some (''bytes='' @ replicate 4301 CHR ''1'' @ ''-'' @ [])) n = Inl ValueError"
proof -
  have m: "rsearch False range_pattern (''bytes='' @ replicate 4301 CHR ''1'' @ ''-'' @ [])
      = Some [replicate 4301 CHR ''1'', []]"
    by (rule range_pattern_canonical) (simp_all add: is_digit_def)
  have long: "py_int (replicate 4301 CHR ''1'') = Inl ValueError"
    by (rule py_int_too_long) (simp add: INT_MAX_STR_DIGITS_def)
  show ?thesis
    unfolding parse_range_def
    by (simp only: m option.case nth_Cons_0 long sum.case if_False append_is_Nil_conv
        list.distinct simp_thms)
qed

text \<open>
  A start beyond the file is not always answered with an empty body. For
  \<open>Range: bytes=9223372036854775808-\<close> on a 3-byte file the start is parsed and the
  response has status 206, but the generator raises \<open>ValueError\<close> in \<open>f.seek\<close>; for a
  start of 4301 digits \<open>int\<close> raises and the request is answered with status 500.
\<close>

theorem unseekable_start_counterexample:
  "parse_range (Some ''bytes=9223372036854775808-'') (int (length [1, 2, 3 :: byte]))
     = Inr (9223372036854775808, 2)
   \<and> status_of (stream_file_with_ranges no_guess ''/mnt/media/Movies/a.mp4''
        (Some (disk_file [1, 2, 3])) (Some ''bytes=9223372036854775808-'') None
        9223372036854775807) = Some 206
   \<and> body_error_of (stream_file_with_ranges no_guess ''/mnt/media/Movies/a.mp4''
        (Some (disk_file [1, 2, 3])) (Some ''bytes=9223372036854775808-'') None
        9223372036854775807) = Some ValueError
   \<and> stream_file_with_ranges no_guess ''/mnt/media/Movies/a.mp4''
        (Some (disk_file [1, 2, 3])) (Some (''bytes='' @ replicate 4301 CHR ''1'' @ ''-''))
        None 9223372036854775807 = Inl (Abort 500)"
proof -
  have p: "parse_range (Some ''bytes=9223372036854775808-'') (int (length [1, 2, 3 :: byte]))
      = Inr (9223372036854775808, 2)"
    using parse_range_off_t by simp
  have ne: "''bytes=9223372036854775808-'' \<noteq> []"
    by simp
  have sk: "seek_error [1, 2, 3] 9223372036854775807 9223372036854775808 = Some ValueError"
    by (simp add: seek_error_def)
  from respond_fields [OF ne p, of no_guess "''/mnt/media/Movies/a.mp4''" None
      9223372036854775807]
  obtain r where r: "respond no_guess ''/mnt/media/Movies/a.mp4'' [1, 2, 3]
        (Some ''bytes=9223372036854775808-'') None 9223372036854775807 = Inr r"
      "status_code r = 206" "body_error r = Some ValueError" "body r = []"
    by (auto simp: generate_def sk)
  have long: "respond no_guess ''/mnt/media/Movies/a.mp4'' [1, 2, 3]
        (Some (''bytes='' @ replicate 4301 CHR ''1'' @ ''-'')) None 9223372036854775807
      = Inl (Abort 500)"
    using parse_range_long_start [of "int (length [1, 2, 3 :: byte])"]
    by (simp add: respond_parse_error)
  show ?thesis
    using p r long
    by (simp add: stream_file_with_ranges_def contents_123 status_of_def body_error_of_def)
qed

text \<open>
  Claim C10, amended. For a range request whose start and end are parsed (\<open>int\<close>
  accepts them, each having at most 4300 digits), whose start exceeds \<open>N - 1\<close> (such as
  \<open>Range: bytes=1500-\<close> on a 1000-byte file) and is an offset the file can be
  positioned at, the start is neither clamped nor rejected: the response has status 206,
  its \<open>Content-Length\<close> is \<open>min(end, N - 1) - start + 1\<close>, which is at most zero, and
  its body is empty: the generator yields no chunk and raises nothing.
\<close>

theorem start_beyond_file_size:
  "(h \<noteq> [] \<and> parse_range (Some h) (int (length (contents f))) = Inr (start, e)
      \<and> int (length (contents f)) - 1 < start \<and> seek_error (contents f) m start = None \<longrightarrow>
     (\<exists>r. stream_file_with_ranges g p (Some f) (Some h) d m = Inr r
        \<and> status_code r = 206
        \<and> header r ''Content-Range'' =
            Some (''bytes '' @ py_str start @ ''-''
                  @ py_str (min e (int (length (contents f)) - 1))
                  @ ''/'' @ py_str (int (length (contents f))))
        \<and> header r ''Content-Length'' =
            Some (py_str (min e (int (length (contents f)) - 1) - start + 1))
        \<and> min e (int (length (contents f)) - 1) - start + 1 \<le> 0
        \<and> body r = [] \<and> body_bytes r = [] \<and> body_error r = None))
   \<and> (length (contents k) = 1000 \<and> 1500 \<le> m \<longrightarrow>
     (\<exists>r. stream_file_with_ranges g p (Some k) (Some ''bytes=1500-'') d m = Inr r
        \<and> status_code r = 206
        \<and> header r ''Content-Range'' = Some ''bytes 1500-999/1000''
        \<and> header r ''Content-Length'' = Some ''-500''
        \<and> body r = [] \<and> body_error r = None))"
proof (intro conjI impI)
  let ?n = "int (length (contents f))"
  assume a: "h \<noteq> [] \<and> parse_range (Some h) ?n = Inr (start, e)
      \<and> ?n - 1 < start \<and> seek_error (contents f) m start = None"
  then have le: "min e (?n - 1) - start + 1 \<le> 0"
    by arith
  have gen: "generate (contents f) m start (min e (?n - 1) - start + 1) = ([], None)"
    using a le by (simp add: generate_def read_chunks_nonpositive)
  from a have ne: "h \<noteq> []" and pr: "parse_range (Some h) ?n = Inr (start, e)"
    by simp_all
  from respond_fields [OF ne pr, of g p d m] obtain r where
    r: "respond g p (contents f) (Some h) d m = Inr r" "status_code r = 206"
      "header r ''Content-Range'' =
            Some (''bytes '' @ py_str start @ ''-'' @ py_str (min e (?n - 1))
                  @ ''/'' @ py_str ?n)"
      "header r ''Content-Length'' = Some (py_str (min e (?n - 1) - start + 1))"
      "body r = []" "body_error r = None"
    by (auto simp: gen)
  with le show "\<exists>r. stream_file_with_ranges g p (Some f) (Some h) d m = Inr r
        \<and> status_code r = 206
        \<and> header r ''Content-Range'' =
            Some (''bytes '' @ py_str start @ ''-'' @ py_str (min e (?n - 1))
                  @ ''/'' @ py_str ?n)
        \<and> header r ''Content-Length'' = Some (py_str (min e (?n - 1) - start + 1))
        \<and> min e (?n - 1) - start + 1 \<le> 0
        \<and> body r = [] \<and> body_bytes r = [] \<and> body_error r = None"
    by (simp add: stream_file_with_ranges_def body_bytes_def)
next
  assume a: "length (contents k) = 1000 \<and> 1500 \<le> m"
  have ne: "''bytes=1500-'' \<noteq> []" by simp
  have pr: "parse_range (Some ''bytes=1500-'') (int (length (contents k))) = Inr (1500, 999)"
    using a by (simp add: parse_range_1500)
  have gen: "generate (contents k) m 1500 (- 500) = ([], None)"
    using a by (simp add: generate_def seek_error_def read_chunks_nonpositive)
  show "\<exists>r. stream_file_with_ranges g p (Some k) (Some ''bytes=1500-'') d m = Inr r
        \<and> status_code r = 206
        \<and> header r ''Content-Range'' = Some ''bytes 1500-999/1000''
        \<and> header r ''Content-Length'' = Some ''-500''
        \<and> body r = [] \<and> body_error r = None"
    using respond_fields [OF ne pr, of g p d m] a
    by (auto simp: stream_file_with_ranges_def gen py_str_examples py_str_examples2)
qed

theorem start_beyond_file_size_witness:
  "''bytes=7-'' \<noteq> []
   \<and> parse_range (Some ''bytes=7-'') (int (length (contents (disk_file [1, 2, 3])))) = Inr (7, 2)
   \<and> int (length (contents (disk_file [1, 2, 3]))) - 1 < 7
   \<and> seek_error (contents (disk_file [1, 2, 3])) 100 7 = None
   \<and> (\<exists>r. stream_file_with_ranges no_guess ''/mnt/media/Movies/a.mp4''
             (Some (disk_file [1, 2, 3])) (Some ''bytes=7-'') None 100 = Inr r
        \<and> status_code r = 206
        \<and> header r ''Content-Range'' = Some ''bytes 7-2/3''
        \<and> header r ''Content-Length'' = Some ''-4''
        \<and> body r = [] \<and> body_error r = None)"
proof -
  have sk: "seek_error [1, 2, 3] 100 7 = None"
    by (simp add: seek_error_def)
  show ?thesis
    using start_beyond_file_size
      [of "''bytes=7-''" "disk_file [1, 2, 3]" 7 2 100 no_guess "''/mnt/media/Movies/a.mp4''"
          None "disk_file [1, 2, 3]"]
    by (auto simp: contents_123 parse_range_7 sk py_str_small)
qed

section \<open>Properties of the compatibility classifier\<close>

text \<open>
  An audio stream whose codec name is \<open>none\<close> is accepted although the stream is
  present and \<open>none\<close> is not in the audio whitelist: the classifier uses that word
  for the absence of an audio stream.
\<close>

theorem audio_codec_none_counterexample:
  "is_web_compatible (Some (probe ''mp4'' ''h264'' (Some ''none''))) = Inr True
   \<and> audio_stream (probe ''mp4'' ''h264'' (Some ''none'')) \<noteq> None
   \<and> ''none'' \<notin> set WEB_COMPATIBLE_audio"
  by (simp add: is_web_compatible_def probe_def get_str_def lower_def lower_char_def
      WEB_COMPATIBLE_containers_def WEB_COMPATIBLE_video_def WEB_COMPATIBLE_audio_def)

text \<open>Without a video stream the classifier raises instead of returning.\<close>

lemma no_video_stream_raises:
  "video_stream vi = None \<Longrightarrow> is_web_compatible (Some vi) = Inl AttributeError"
  by (simp add: is_web_compatible_def Let_def)

text \<open>
  Claim C4, amended. For every probe result with a video stream, the classifier returns
  true if and only if the lower-cased container format name contains a whitelisted
  container token, the lower-cased video codec is in the video whitelist, and there is
  no audio stream, or the lower-cased audio codec is in the audio whitelist or is the
  word \<open>none\<close>. For an absent probe result it returns false. Container \<open>mp4\<close> with
  video codec \<open>h264\<close> and no audio stream is compatible; container \<open>avi\<close> with video
  codec \<open>mpeg4\<close> is not.
\<close>

theorem web_compatible_iff:
  "is_web_compatible None = Inr False
   \<and> (video_stream vi = Some vs \<longrightarrow>
        is_web_compatible (Some vi) =
          Inr (list_ex (contains (lower (get_str (format_name vi)))) WEB_COMPATIBLE_containers
               \<and> lower (get_str (codec_name vs)) \<in> set WEB_COMPATIBLE_video
               \<and> (case audio_stream vi of
                     None \<Rightarrow> True
                   | Some as \<Rightarrow> lower (get_str (codec_name as)) \<in> set WEB_COMPATIBLE_audio
                               \<or> lower (get_str (codec_name as)) = ''none'')))
   \<and> is_web_compatible (Some (probe ''mp4'' ''h264'' None)) = Inr True
   \<and> is_web_compatible (Some (probe ''avi'' ''mpeg4'' acodec)) = Inr False"
proof (intro conjI impI)
  show "is_web_compatible None = Inr False"
    by (simp add: is_web_compatible_def)
next
  assume "video_stream vi = Some vs"
  then show "is_web_compatible (Some vi) =
          Inr (list_ex (contains (lower (get_str (format_name vi)))) WEB_COMPATIBLE_containers
               \<and> lower (get_str (codec_name vs)) \<in> set WEB_COMPATIBLE_video
               \<and> (case audio_stream vi of
                     None \<Rightarrow> True
                   | Some as \<Rightarrow> lower (get_str (codec_name as)) \<in> set WEB_COMPATIBLE_audio
                               \<or> lower (get_str (codec_name as)) = ''none''))"
    by (cases "audio_stream vi")
      (simp_all add: is_web_compatible_def Let_def WEB_COMPATIBLE_audio_def)
next
  show "is_web_compatible (Some (probe ''mp4'' ''h264'' None)) = Inr True"
    by (simp add: is_web_compatible_def probe_def get_str_def lower_def lower_char_def
        WEB_COMPATIBLE_containers_def WEB_COMPATIBLE_video_def WEB_COMPATIBLE_audio_def)
next
  show "is_web_compatible (Some (probe ''avi'' ''mpeg4'' acodec)) = Inr False"
    by (simp add: is_web_compatible_def probe_def get_str_def lower_def lower_char_def Let_def
        WEB_COMPATIBLE_containers_def WEB_COMPATIBLE_video_def)
qed

theorem web_compatible_iff_witness:
  "video_stream (probe ''MOV,MP4,m4a'' ''H264'' (Some ''AAC''))
     = Some \<lparr>codec_type = ''video'', codec_name = Some ''H264''\<rparr>
   \<and> is_web_compatible (Some (probe ''MOV,MP4,m4a'' ''H264'' (Some ''AAC''))) = Inr True
   \<and> is_web_compatible (Some (probe ''MOV,MP4,m4a'' ''H264'' (Some ''ac3''))) = Inr False"
  using web_compatible_iff
    [of "probe ''MOV,MP4,m4a'' ''H264'' (Some ''AAC'')"
        "\<lparr>codec_type = ''video'', codec_name = Some ''H264''\<rparr>"]
    web_compatible_iff
    [of "probe ''MOV,MP4,m4a'' ''H264'' (Some ''ac3'')"
        "\<lparr>codec_type = ''video'', codec_name = Some ''H264''\<rparr>"]
  by (simp add: probe_def get_str_def lower_def lower_char_def char_of_def bit_simps
      WEB_COMPATIBLE_containers_def WEB_COMPATIBLE_video_def WEB_COMPATIBLE_audio_def)

section \<open>Properties of the token table\<close>

text \<open>
  Validation does not consume a token: after one token is issued at time 0, it is
  validated with its file name at time 10 and again at time 20, both inside its
  lifetime, and both validations succeed.
\<close>

theorem token_validates_twice_counterexample:
  "fst (validate_streaming_token 10 ''tok'' ''a.mp4''
          (snd (generate_streaming_token ''tok'' 0 0 0 ''a.mp4'' ''1'' no_tokens)))
   \<and> fst (validate_streaming_token 20 ''tok'' ''a.mp4''
          (snd (validate_streaming_token 10 ''tok'' ''a.mp4''
             (snd (generate_streaming_token ''tok'' 0 0 0 ''a.mp4'' ''1'' no_tokens)))))"
  by (simp add: validate_streaming_token_def generate_streaming_token_def
      cleanup_expired_tokens_def STREAM_TOKEN_EXPIRY_def no_tokens_def)

lemma validate_iff:
  "fst (validate_streaming_token now token fname st)
     = (case st token of
          None \<Rightarrow> False
        | Some d \<Rightarrow> \<not> expires d < now \<and> token_filename d = fname)"
  by (simp add: validate_streaming_token_def split: option.splits)

lemma validate_success_keeps_store:
  "fst (validate_streaming_token now token fname st) \<Longrightarrow>
   snd (validate_streaming_token now token fname st) = st"
  by (auto simp: validate_streaming_token_def split: option.splits if_splits)

lemma issued_token_stored:
  assumes "\<not> t_expiry + STREAM_TOKEN_EXPIRY < t_cleanup"
  shows "snd (generate_streaming_token token t_expiry t_created t_cleanup fname user_id st) token
    = Some \<lparr>token_filename = fname, token_user_id = user_id,
            expires = t_expiry + STREAM_TOKEN_EXPIRY, created = t_created\<rparr>"
  using assms by (simp add: generate_streaming_token_def cleanup_expired_tokens_def)

lemma issuance_purges:
  "snd (generate_streaming_token token t_expiry t_created t_cleanup fname user_id st) k = Some d
   \<Longrightarrow> \<not> expires d < t_cleanup"
  by (auto simp: generate_streaming_token_def cleanup_expired_tokens_def Let_def
      split: option.splits if_splits)

lemma issuance_store:
  "snd (generate_streaming_token token t_expiry t_created t_cleanup fname user_id st) k
    = (if k = token
       then (if t_expiry + STREAM_TOKEN_EXPIRY < t_cleanup then None
             else Some \<lparr>token_filename = fname, token_user_id = user_id,
                        expires = t_expiry + STREAM_TOKEN_EXPIRY, created = t_created\<rparr>)
       else (case st k of
               None \<Rightarrow> None
             | Some d \<Rightarrow> if expires d < t_cleanup then None else Some d))"
  by (simp add: generate_streaming_token_def cleanup_expired_tokens_def)

lemma validation_store:
  "snd (validate_streaming_token now token fname st) k
    = (if k = token \<and> (case st token of None \<Rightarrow> False | Some d \<Rightarrow> expires d < now)
       then None else st k)"
  by (simp add: validate_streaming_token_def split: option.splits)

lemma earlier_token_survives:
  assumes "k \<noteq> token" and "st k = Some d0" and "\<not> expires d0 < t_cleanup"
    and "now \<le> expires d0"
  shows "fst (validate_streaming_token now k (token_filename d0)
           (snd (generate_streaming_token token t_expiry t_created t_cleanup fname user_id st)))"
  using assms by (simp add: validate_iff issuance_store)

text \<open>
  Claim C5, amended. An issued token validates with its bound file name every time
  validation is performed no later than its expiry time, issuance time plus 3600
  seconds, and validation leaves the table unchanged; this also holds after other tokens
  have been issued, since an issuance keeps every other token that has not expired and a
  validation removes at most the expired token it was asked about. Validation fails
  whenever the token is not in the table, the current time is past the expiry time, or
  the supplied file name differs from the bound one. After every issuance the table
  holds no token that had expired when the clean-up ran.
\<close>

theorem token_validation:
  "(\<not> t_expiry + STREAM_TOKEN_EXPIRY < t_cleanup \<and> now \<le> t_expiry + STREAM_TOKEN_EXPIRY
      \<and> now2 \<le> t_expiry + STREAM_TOKEN_EXPIRY \<longrightarrow>
     validate_streaming_token now token fname
        (snd (generate_streaming_token token t_expiry t_created t_cleanup fname user_id st))
       = (True, snd (generate_streaming_token token t_expiry t_created t_cleanup fname user_id st))
     \<and> fst (validate_streaming_token now2 token fname
          (snd (validate_streaming_token now token fname
             (snd (generate_streaming_token token t_expiry t_created t_cleanup fname
                     user_id st))))))
   \<and> (fst (validate_streaming_token now token fname st)
        = (case st token of
             None \<Rightarrow> False
           | Some d \<Rightarrow> \<not> expires d < now \<and> token_filename d = fname))
   \<and> (snd (generate_streaming_token token t_expiry t_created t_cleanup fname user_id st) k
        = (if k = token
           then (if t_expiry + STREAM_TOKEN_EXPIRY < t_cleanup then None
                 else Some \<lparr>token_filename = fname, token_user_id = user_id,
                            expires = t_expiry + STREAM_TOKEN_EXPIRY, created = t_created\<rparr>)
           else (case st k of
                   None \<Rightarrow> None
                 | Some d \<Rightarrow> if expires d < t_cleanup then None else Some d)))
   \<and> (k \<noteq> token \<and> st k = Some d0 \<and> \<not> expires d0 < t_cleanup \<and> now \<le> expires d0 \<longrightarrow>
        fst (validate_streaming_token now k (token_filename d0)
          (snd (generate_streaming_token token t_expiry t_created t_cleanup fname user_id st))))
   \<and> (snd (validate_streaming_token now token fname st) k
        = (if k = token \<and> (case st token of None \<Rightarrow> False | Some d \<Rightarrow> expires d < now)
           then None else st k))
   \<and> (case snd (generate_streaming_token token t_expiry t_created t_cleanup fname user_id st) k of
         None \<Rightarrow> True
       | Some d \<Rightarrow> \<not> expires d < t_cleanup)
   \<and> STREAM_TOKEN_EXPIRY = 3600"
proof (intro conjI impI)
  let ?st = "snd (generate_streaming_token token t_expiry t_created t_cleanup fname user_id st)"
  assume a: "\<not> t_expiry + STREAM_TOKEN_EXPIRY < t_cleanup \<and> now \<le> t_expiry + STREAM_TOKEN_EXPIRY
      \<and> now2 \<le> t_expiry + STREAM_TOKEN_EXPIRY"
  then have stored: "?st token = Some \<lparr>token_filename = fname, token_user_id = user_id,
            expires = t_expiry + STREAM_TOKEN_EXPIRY, created = t_created\<rparr>"
    using issued_token_stored by simp
  have ok1: "fst (validate_streaming_token now token fname ?st)"
    using a by (simp add: validate_iff stored)
  then have keep: "snd (validate_streaming_token now token fname ?st) = ?st"
    by (rule validate_success_keeps_store)
  show "validate_streaming_token now token fname ?st = (True, ?st)"
    using ok1 keep by (simp add: prod_eq_iff)
  show "fst (validate_streaming_token now2 token fname
          (snd (validate_streaming_token now token fname ?st)))"
    using a by (simp add: keep validate_iff stored)
next
  show "fst (validate_streaming_token now token fname st)
        = (case st token of
             None \<Rightarrow> False
           | Some d \<Rightarrow> \<not> expires d < now \<and> token_filename d = fname)"
    by (rule validate_iff)
next
  show "snd (generate_streaming_token token t_expiry t_created t_cleanup fname user_id st) k
        = (if k = token
           then (if t_expiry + STREAM_TOKEN_EXPIRY < t_cleanup then None
                 else Some \<lparr>token_filename = fname, token_user_id = user_id,
                            expires = t_expiry + STREAM_TOKEN_EXPIRY, created = t_created\<rparr>)
           else (case st k of
                   None \<Rightarrow> None
                 | Some d \<Rightarrow> if expires d < t_cleanup then None else Some d))"
    by (rule issuance_store)
next
  assume "k \<noteq> token \<and> st k = Some d0 \<and> \<not> expires d0 < t_cleanup \<and> now \<le> expires d0"
  then show "fst (validate_streaming_token now k (token_filename d0)
          (snd (generate_streaming_token token t_expiry t_created t_cleanup fname user_id st)))"
    using earlier_token_survives by blast
next
  show "snd (validate_streaming_token now token fname st) k
        = (if k = token \<and> (case st token of None \<Rightarrow> False | Some d \<Rightarrow> expires d < now)
           then None else st k)"
    by (rule validation_store)
next
  show "case snd (generate_streaming_token token t_expiry t_created t_cleanup fname user_id st) k of
         None \<Rightarrow> True
       | Some d \<Rightarrow> \<not> expires d < t_cleanup"
    using issuance_purges [of token t_expiry t_created t_cleanup fname user_id st k]
    by (simp split: option.splits)
next
  show "STREAM_TOKEN_EXPIRY = 3600"
    by (simp add: STREAM_TOKEN_EXPIRY_def)
qed

theorem token_validation_witness:
  "fst (validate_streaming_token 20 ''t1'' ''a.mp4''
        (snd (generate_streaming_token ''t2'' 10 10 10 ''b.mp4'' ''1''
           (snd (generate_streaming_token ''t1'' 0 0 0 ''a.mp4'' ''1'' no_tokens)))))
   \<and> fst (validate_streaming_token 20 ''t2'' ''b.mp4''
        (snd (generate_streaming_token ''t2'' 10 10 10 ''b.mp4'' ''1''
           (snd (generate_streaming_token ''t1'' 0 0 0 ''a.mp4'' ''1'' no_tokens)))))
   \<and> fst (validate_streaming_token 30 ''t2'' ''b.mp4''
        (snd (validate_streaming_token 20 ''t2'' ''b.mp4''
           (snd (generate_streaming_token ''t2'' 10 10 10 ''b.mp4'' ''1''
              (snd (generate_streaming_token ''t1'' 0 0 0 ''a.mp4'' ''1'' no_tokens)))))))
   \<and> \<not> fst (validate_streaming_token 3601 ''t1'' ''a.mp4''
        (snd (generate_streaming_token ''t2'' 10 10 10 ''b.mp4'' ''1''
           (snd (generate_streaming_token ''t1'' 0 0 0 ''a.mp4'' ''1'' no_tokens)))))
   \<and> \<not> fst (validate_streaming_token 20 ''t1'' ''b.mp4''
        (snd (generate_streaming_token ''t2'' 10 10 10 ''b.mp4'' ''1''
           (snd (generate_streaming_token ''t1'' 0 0 0 ''a.mp4'' ''1'' no_tokens)))))
   \<and> \<not> fst (validate_streaming_token 20 ''t3'' ''a.mp4''
        (snd (generate_streaming_token ''t2'' 10 10 10 ''b.mp4'' ''1''
           (snd (generate_streaming_token ''t1'' 0 0 0 ''a.mp4'' ''1'' no_tokens)))))
   \<and> snd (generate_streaming_token ''t3'' 3605 3605 3605 ''c.mp4'' ''1''
        (snd (generate_streaming_token ''t2'' 10 10 10 ''b.mp4'' ''1''
           (snd (generate_streaming_token ''t1'' 0 0 0 ''a.mp4'' ''1'' no_tokens))))) ''t1''
       = None"
proof -
  let ?d1 = "\<lparr>token_filename = ''a.mp4'', token_user_id = ''1'',
      expires = 0 + STREAM_TOKEN_EXPIRY, created = 0\<rparr>"
  let ?d2 = "\<lparr>token_filename = ''b.mp4'', token_user_id = ''1'',
      expires = 10 + STREAM_TOKEN_EXPIRY, created = 10\<rparr>"
  let ?S1 = "snd (generate_streaming_token ''t1'' 0 0 0 ''a.mp4'' ''1'' no_tokens)"
  let ?S2 = "snd (generate_streaming_token ''t2'' 10 10 10 ''b.mp4'' ''1'' ?S1)"
  let ?S3 = "snd (generate_streaming_token ''t3'' 3605 3605 3605 ''c.mp4'' ''1'' ?S2)"
  have e: "STREAM_TOKEN_EXPIRY = 3600"
    by (simp add: STREAM_TOKEN_EXPIRY_def)
  have s1: "?S1 ''t1'' = Some ?d1"
    using token_validation [of 0 0 0 0 "''t1''" "''a.mp4''" 0 "''1''" no_tokens "''t1''"]
    by (simp add: e)
  have s2_t1: "?S2 ''t1'' = Some ?d1"
    using token_validation [of 10 10 0 0 "''t2''" "''b.mp4''" 10 "''1''" ?S1 "''t1''"]
    by (simp add: s1 e)
  have s2_t2: "?S2 ''t2'' = Some ?d2"
    using token_validation [of 10 10 0 0 "''t2''" "''b.mp4''" 10 "''1''" ?S1 "''t2''"]
    by (simp add: e)
  have s2_t3: "?S2 ''t3'' = None"
    using token_validation [of 10 10 0 0 "''t2''" "''b.mp4''" 10 "''1''" ?S1 "''t3''"]
      token_validation [of 0 0 0 0 "''t1''" "''a.mp4''" 0 "''1''" no_tokens "''t3''"]
    by (simp add: no_tokens_def)
  have h: "\<not> (10 :: real) + STREAM_TOKEN_EXPIRY < 10 \<and> (20 :: real) \<le> 10 + STREAM_TOKEN_EXPIRY
      \<and> (30 :: real) \<le> 10 + STREAM_TOKEN_EXPIRY"
    by (simp add: e)
  have first: "fst (validate_streaming_token 20 ''t1'' ''a.mp4'' ?S2)"
    using token_validation
      [of 10 10 20 0 "''t2''" "''b.mp4''" 10 "''1''" ?S1 "''t1''" ?d1]
    by (simp add: s1 e)
  have second: "validate_streaming_token 20 ''t2'' ''b.mp4'' ?S2 = (True, ?S2)
      \<and> fst (validate_streaming_token 30 ''t2'' ''b.mp4''
            (snd (validate_streaming_token 20 ''t2'' ''b.mp4'' ?S2)))"
    using token_validation
      [of 10 10 20 30 "''t2''" "''b.mp4''" 10 "''1''" ?S1 "''t2''"] h
    by blast
  have late: "\<not> fst (validate_streaming_token 3601 ''t1'' ''a.mp4'' ?S2)"
    using token_validation [of 0 0 3601 0 "''t1''" "''a.mp4''" 0 "''1''" ?S2 "''t1''"]
    by (simp only: s2_t1 option.case token_data.simps) (simp add: e)
  have wrong_name: "\<not> fst (validate_streaming_token 20 ''t1'' ''b.mp4'' ?S2)"
    using token_validation [of 0 0 20 0 "''t1''" "''b.mp4''" 0 "''1''" ?S2 "''t1''"]
    by (simp only: s2_t1 option.case token_data.simps) simp
  have unknown: "\<not> fst (validate_streaming_token 20 ''t3'' ''a.mp4'' ?S2)"
    using token_validation [of 0 0 20 0 "''t3''" "''a.mp4''" 0 "''1''" ?S2 "''t1''"]
    by (simp only: s2_t3 option.case) simp
  have purged: "?S3 ''t1'' = None"
    using token_validation [of 3605 3605 0 0 "''t3''" "''c.mp4''" 3605 "''1''" ?S2 "''t1''"]
    by (simp add: s2_t1 e)
  from second have s20: "fst (validate_streaming_token 20 ''t2'' ''b.mp4'' ?S2)"
    by simp
  from first second s20 late wrong_name unknown purged show ?thesis
    by blast
qed

section \<open>Properties of the episode parser\<close>

lemma first_some_None: "(\<forall>x\<in>set xs. f x = None) \<Longrightarrow> first_some f xs = None"
  by (induction xs) simp_all

lemma takeWhile_no_digit:
  "(\<forall>c\<in>set s. \<not> is_digit c) \<Longrightarrow> takeWhile is_digit s = []"
  by (cases s) simp_all

lemma rmatch_needs_digit:
  "Atom Dig Plus \<in> set p \<Longrightarrow> (\<forall>c\<in>set s. \<not> is_digit c) \<Longrightarrow>
   rmatch ic p s opens caps = None"
proof (induction p arbitrary: s opens caps)
  case Nil
  then show ?case by simp
next
  case (Cons x p)
  show ?case
  proof (cases x)
    case GOpen
    with Cons show ?thesis by simp
  next
    case GClose
    with Cons show ?thesis by (cases opens) simp_all
  next
    case (Atom c q)
    show ?thesis
    proof (cases "c = Dig \<and> q = Plus")
      case True
      then show ?thesis
        using Cons.prems(2) by (simp add: Atom cmatch_Dig takeWhile_no_digit)
    next
      case False
      with Cons.prems(1) Atom have mem: "Atom Dig Plus \<in> set p" by auto
      have "rmatch ic p (drop k s) opens caps = None" for k
        using Cons.IH [OF mem, of "drop k s"] Cons.prems(2)
        by (meson in_set_dropD)
      then show ?thesis
        by (simp add: Atom first_some_None)
    qed
  qed
qed

lemma rsearch_needs_digit:
  "Atom Dig Plus \<in> set p \<Longrightarrow> (\<forall>c\<in>set s. \<not> is_digit c) \<Longrightarrow> rsearch ic p s = None"
  by (induction s) (simp_all add: rmatch_needs_digit)

lemma patterns_need_digit: "\<forall>q\<in>set patterns. Atom Dig Plus \<in> set (fst q)"
  by (simp add: patterns_def grp_def lit_def)

lemma apply_patterns_no_match:
  "(\<forall>q\<in>set ps. rsearch True (fst q) s = None) \<Longrightarrow> apply_patterns ps s i = Inr i"
  by (induction ps) auto

lemma apply_patterns_first_match:
  "(\<forall>q\<in>set ps. rsearch True (fst q) s = None) \<Longrightarrow> rsearch True p s = Some m \<Longrightarrow>
   apply_patterns (ps @ (p, t) # qs) s i = apply_patterns [(p, t)] s i"
  by (induction ps) auto

lemma findall_digits_none:
  "(\<forall>c\<in>set s. \<not> is_digit c) \<Longrightarrow> findall_digits s [] = []"
  by (induction s) simp_all

lemma no_digits_unset:
  assumes "\<forall>c\<in>set (strip_video_ext fn). \<not> is_digit c"
  shows "extract_episode_info fn
    = Inr \<lparr>original_filename = fn, clean_title = strip_video_ext fn,
           season = None, episode = None, series_name = None\<rparr>"
proof -
  have "\<forall>q\<in>set patterns. rsearch True (fst q) (strip_video_ext fn) = None"
    using patterns_need_digit assms by (simp add: rsearch_needs_digit)
  then have "apply_patterns patterns (strip_video_ext fn) i = Inr i" for i
    by (rule apply_patterns_no_match)
  then show ?thesis
    using assms by (simp add: extract_episode_info_def Let_def findall_digits_none)
qed

lemma strip_video_ext_subset: "set (strip_video_ext fn) \<subseteq> set fn"
proof (cases "fn = []")
  case True
  then show ?thesis
    by (simp add: strip_video_ext_def Let_def split: option.splits)
next
  case False
  have b: "set (butlast fn) \<subseteq> set fn"
    by (meson in_set_butlastD subsetI)
  have l: "last fn \<in> set fn"
    using False by simp
  show ?thesis
    using b l by (auto simp: strip_video_ext_def Let_def split: option.splits dest: in_set_takeD)
qed

lemma extract_breaking_bad:
  "extract_episode_info ''Breaking Bad S01E05.mp4''
    = Inr \<lparr>original_filename = ''Breaking Bad S01E05.mp4'',
           clean_title = ''Breaking Bad S01E05'',
           season = Some 1, episode = Some 5, series_name = Some ''Breaking Bad''\<rparr>"
  by code_simp

lemma extract_show_07:
  "extract_episode_info ''Show 07.mkv''
    = Inr \<lparr>original_filename = ''Show 07.mkv'', clean_title = ''Show 07'',
           season = None, episode = Some 7, series_name = Some ''Show''\<rparr>"
  by code_simp

text \<open>
  Claim C6. The episode parser strips a known video extension and applies its pattern
  rules in order, the first match winning: patterns that do not match are skipped and
  those after the first match are not consulted. For \<open>Breaking Bad S01E05.mp4\<close> it
  returns the series name \<open>Breaking Bad\<close>, season 1, episode 5; for \<open>Show 07.mkv\<close>
  the series name \<open>Show\<close>, episode 7, and no season. When the name without its
  extension contains no digit, and so whenever the file name contains none, the parser
  returns with the series name and the episode unset.
\<close>

theorem episode_parser_examples:
  "extract_episode_info ''Breaking Bad S01E05.mp4''
     = Inr \<lparr>original_filename = ''Breaking Bad S01E05.mp4'',
            clean_title = ''Breaking Bad S01E05'',
            season = Some 1, episode = Some 5, series_name = Some ''Breaking Bad''\<rparr>
   \<and> extract_episode_info ''Show 07.mkv''
     = Inr \<lparr>original_filename = ''Show 07.mkv'', clean_title = ''Show 07'',
            season = None, episode = Some 7, series_name = Some ''Show''\<rparr>
   \<and> ((\<forall>q\<in>set ps. rsearch True (fst q) s = None) \<and> rsearch True p s = Some m \<longrightarrow>
        apply_patterns (ps @ (p, t) # qs) s i = apply_patterns [(p, t)] s i)
   \<and> ((\<forall>c\<in>set (strip_video_ext fn). \<not> is_digit c) \<longrightarrow>
        (\<exists>j. extract_episode_info fn = Inr j \<and> series_name j = None \<and> episode j = None))
   \<and> ((\<forall>c\<in>set fn. \<not> is_digit c) \<longrightarrow>
        (\<exists>j. extract_episode_info fn = Inr j \<and> series_name j = None \<and> episode j = None))"
proof (intro conjI impI)
  show "extract_episode_info ''Breaking Bad S01E05.mp4''
     = Inr \<lparr>original_filename = ''Breaking Bad S01E05.mp4'',
            clean_title = ''Breaking Bad S01E05'',
            season = Some 1, episode = Some 5, series_name = Some ''Breaking Bad''\<rparr>"
    by (rule extract_breaking_bad)
  show "extract_episode_info ''Show 07.mkv''
     = Inr \<lparr>original_filename = ''Show 07.mkv'', clean_title = ''Show 07'',
            season = None, episode = Some 7, series_name = Some ''Show''\<rparr>"
    by (rule extract_show_07)
next
  assume "(\<forall>q\<in>set ps. rsearch True (fst q) s = None) \<and> rsearch True p s = Some m"
  then show "apply_patterns (ps @ (p, t) # qs) s i = apply_patterns [(p, t)] s i"
    using apply_patterns_first_match by blast
next
  assume a: "\<forall>c\<in>set (strip_video_ext fn). \<not> is_digit c"
  show "\<exists>j. extract_episode_info fn = Inr j \<and> series_name j = None \<and> episode j = None"
    using no_digits_unset [OF a] by simp
next
  assume "\<forall>c\<in>set fn. \<not> is_digit c"
  then have a: "\<forall>c\<in>set (strip_video_ext fn). \<not> is_digit c"
    using strip_video_ext_subset [of fn] by blast
  show "\<exists>j. extract_episode_info fn = Inr j \<and> series_name j = None \<and> episode j = None"
    using no_digits_unset [OF a] by simp
qed

theorem episode_parser_examples_witness:
  "(\<exists>j. extract_episode_info ''movie.mkv'' = Inr j \<and> series_name j = None \<and> episode j = None)
   \<and> apply_patterns patterns ''Show 07''
         \<lparr>original_filename = ''Show 07.mkv'', clean_title = ''Show 07'',
          season = None, episode = None, series_name = None\<rparr>
       = apply_patterns [last patterns] ''Show 07''
         \<lparr>original_filename = ''Show 07.mkv'', clean_title = ''Show 07'',
          season = None, episode = None, series_name = None\<rparr>"
proof -
  have h1: "\<forall>q\<in>set (butlast patterns). rsearch True (fst q) ''Show 07'' = None"
    by code_simp
  have h2: "rsearch True (fst (last patterns)) ''Show 07'' = Some [''Show'', ''07'']"
    by code_simp
  have h3: "butlast patterns @ [last patterns] = patterns"
    by (simp add: patterns_def)
  have h4: "\<forall>c\<in>set ''movie.mkv''. \<not> is_digit c"
    by (simp add: is_digit_def)
  have inst: "apply_patterns
        (butlast patterns @ (fst (last patterns), snd (last patterns)) # []) ''Show 07''
         \<lparr>original_filename = ''Show 07.mkv'', clean_title = ''Show 07'',
          season = None, episode = None, series_name = None\<rparr>
       = apply_patterns [(fst (last patterns), snd (last patterns))] ''Show 07''
         \<lparr>original_filename = ''Show 07.mkv'', clean_title = ''Show 07'',
          season = None, episode = None, series_name = None\<rparr>
     \<and> (\<exists>j. extract_episode_info ''movie.mkv'' = Inr j \<and> series_name j = None
            \<and> episode j = None)"
    using episode_parser_examples
      [of "butlast patterns" "''Show 07''" "fst (last patterns)" "[''Show'', ''07'']"
          "snd (last patterns)" "[]"
          "\<lparr>original_filename = ''Show 07.mkv'', clean_title = ''Show 07'',
            season = None, episode = None, series_name = None\<rparr>" "''movie.mkv''"]
      h1 h2 h4
    by blast
  then show ?thesis
    by (simp add: h3)
qed

lemma apply_patterns_season_episode:
  "(season i \<noteq> None \<longrightarrow> episode i \<noteq> None) \<Longrightarrow> apply_patterns ps s i = Inr j \<Longrightarrow>
   season j \<noteq> None \<longrightarrow> episode j \<noteq> None"
proof (induction ps)
  case Nil
  then show ?case by simp
next
  case (Cons q ps)
  obtain p t where q: "q = (p, t)" by (cases q)
  show ?case
  proof (cases "rsearch True p s")
    case None
    with Cons show ?thesis by (simp add: q)
  next
    case (Some m)
    with Cons.prems show ?thesis
      by (cases t) (auto simp: q split: sum.splits)
  qed
qed

lemma extract_season_episode:
  assumes "extract_episode_info fn = Inr j"
  shows "season j \<noteq> None \<longrightarrow> episode j \<noteq> None"
proof -
  let ?i0 = "\<lparr>original_filename = fn, clean_title = strip_video_ext fn,
              season = None, episode = None, series_name = None\<rparr>"
  obtain matched where m: "apply_patterns patterns (strip_video_ext fn) ?i0 = Inr matched"
    using assms by (auto simp: extract_episode_info_def Let_def split: sum.splits)
  have inv: "season matched \<noteq> None \<longrightarrow> episode matched \<noteq> None"
    by (rule apply_patterns_season_episode [OF _ m]) simp
  show ?thesis
    using assms inv
    by (auto simp: extract_episode_info_def Let_def m split: sum.splits if_splits)
qed

lemma first_some_Some: "first_some f xs = Some y \<Longrightarrow> \<exists>x\<in>set xs. f x = Some y"
  by (induction xs) (auto split: option.splits)

lemma rmatch_caps_length:
  "rmatch ic p s opens caps = Some res \<Longrightarrow> length s \<le> n \<Longrightarrow>
   (\<forall>x\<in>set opens. length x \<le> n) \<Longrightarrow> (\<forall>x\<in>set caps. length x \<le> n) \<Longrightarrow>
   \<forall>x\<in>set (fst res). length x \<le> n"
proof (induction p arbitrary: s opens caps)
  case Nil
  then show ?case by auto
next
  case (Cons x p)
  show ?case
  proof (cases x)
    case GOpen
    with Cons.prems show ?thesis
      using Cons.IH [of s "s # opens" caps] by simp
  next
    case GClose
    show ?thesis
    proof (cases opens)
      case Nil
      with Cons.prems GClose show ?thesis by simp
    next
      case (Cons s0 os)
      with Cons.prems GClose show ?thesis
        using Cons.IH [of s os "caps @ [take (length s0 - length s) s0]"] by auto
    qed
  next
    case (Atom c q)
    with Cons.prems(1) obtain k where "rmatch ic p (drop k s) opens caps = Some res"
      using first_some_Some by fastforce
    then show ?thesis
      using Cons.IH [of "drop k s" opens caps] Cons.prems by simp
  qed
qed

lemma rmatch_caps_count:
  "rmatch ic p s opens caps = Some res \<Longrightarrow>
   length (fst res) = length caps + count_list p GClose"
proof (induction p arbitrary: s opens caps)
  case Nil
  then show ?case by auto
next
  case (Cons x p)
  show ?case
  proof (cases x)
    case GOpen
    with Cons.prems show ?thesis
      using Cons.IH [of s "s # opens" caps] by simp
  next
    case GClose
    show ?thesis
    proof (cases opens)
      case Nil
      with Cons.prems GClose show ?thesis by simp
    next
      case (Cons s0 os)
      with Cons.prems GClose show ?thesis
        using Cons.IH [of s os "caps @ [take (length s0 - length s) s0]"] by auto
    qed
  next
    case (Atom c q)
    with Cons.prems(1) obtain k where "rmatch ic p (drop k s) opens caps = Some res"
      using first_some_Some by fastforce
    then show ?thesis
      using Cons.IH [of "drop k s" opens caps] Atom by simp
  qed
qed

lemma rsearch_groups:
  "rsearch ic p s = Some m \<Longrightarrow>
   length m = count_list p GClose \<and> (\<forall>x\<in>set m. length x \<le> length s)"
proof (induction s)
  case Nil
  then obtain res where "rmatch ic p [] [] [] = Some res" "m = fst res"
    by auto
  then show ?case
    using rmatch_caps_length [of ic p "[]" "[]" "[]" res 0]
      rmatch_caps_count [of ic p "[]" "[]" "[]" res] by simp
next
  case (Cons c cs)
  show ?case
  proof (cases "rmatch ic p (c # cs) [] []")
    case None
    with Cons show ?thesis by fastforce
  next
    case (Some res)
    with Cons.prems have "m = fst res" by simp
    then show ?thesis
      using rmatch_caps_length [OF Some, of "length (c # cs)"] rmatch_caps_count [OF Some]
      by simp
  qed
qed

lemma py_int_short: "length s \<le> INT_MAX_STR_DIGITS \<Longrightarrow> py_int s = Inr (decimal_value s)"
  by (simp add: py_int_def)

lemma patterns_group_count:
  "\<forall>q\<in>set patterns.
     count_list (fst q) GClose
       = (case snd q of Series_season_episode \<Rightarrow> 3 | Series_episode \<Rightarrow> 2)"
  by (simp add: patterns_def grp_def lit_def)

lemma apply_patterns_returns:
  assumes "length s \<le> INT_MAX_STR_DIGITS"
  shows "(\<forall>q\<in>set ps. count_list (fst q) GClose
            = (case snd q of Series_season_episode \<Rightarrow> 3 | Series_episode \<Rightarrow> 2)) \<Longrightarrow>
    \<exists>j. apply_patterns ps s i = Inr j"
proof (induction ps)
  case Nil
  show ?case by simp
next
  case (Cons q ps)
  obtain p t where q: "q = (p, t)" by (cases q)
  show ?case
  proof (cases "rsearch True p s")
    case None
    with Cons show ?thesis by (simp add: q)
  next
    case (Some m)
    have len: "length m = count_list p GClose" and short: "\<forall>x\<in>set m. length x \<le> length s"
      using rsearch_groups [OF Some] by simp_all
    have cnt: "count_list p GClose
        = (case t of Series_season_episode \<Rightarrow> 3 | Series_episode \<Rightarrow> 2)"
      using Cons.prems by (simp add: q)
    show ?thesis
    proof (cases t)
      case Series_season_episode
      with len cnt have "length m = 3" by simp
      then have "m ! 1 \<in> set m" "m ! 2 \<in> set m" by simp_all
      then have "length (m ! 1) \<le> INT_MAX_STR_DIGITS" "length (m ! 2) \<le> INT_MAX_STR_DIGITS"
        using short assms by fastforce+
      then show ?thesis
        by (simp add: q Some Series_season_episode py_int_short)
    next
      case Series_episode
      with len cnt have "length m = 2" by simp
      then have "m ! 1 \<in> set m" by simp
      then have "length (m ! 1) \<le> INT_MAX_STR_DIGITS"
        using short assms by fastforce
      then show ?thesis
        by (simp add: q Some Series_episode py_int_short)
    qed
  qed
qed

lemma findall_digits_length:
  "\<forall>x\<in>set (findall_digits s cur). length x \<le> length cur + length s"
proof (induction s arbitrary: cur)
  case Nil
  show ?case by simp
next
  case (Cons c s)
  show ?case
    using Cons [of "cur @ [c]"] Cons [of "[]"] by auto
qed

lemma strip_video_ext_length: "length (strip_video_ext fn) \<le> length fn"
proof (cases "fn = []")
  case True
  then show ?thesis
    by (simp add: strip_video_ext_def Let_def split: option.splits)
next
  case False
  then have "Suc (length fn - Suc k) \<le> length fn" for k
    by (cases fn) simp_all
  then show ?thesis
    by (auto simp: strip_video_ext_def Let_def split: option.splits)
qed

lemma extract_returns:
  assumes "length fn \<le> INT_MAX_STR_DIGITS"
  shows "\<exists>j. extract_episode_info fn = Inr j"
proof -
  let ?s = "strip_video_ext fn"
  let ?i0 = "\<lparr>original_filename = fn, clean_title = ?s,
              season = None, episode = None, series_name = None\<rparr>"
  have short: "length ?s \<le> INT_MAX_STR_DIGITS"
    using strip_video_ext_length [of fn] assms by simp
  obtain matched where m: "apply_patterns patterns ?s ?i0 = Inr matched"
    using apply_patterns_returns [OF short patterns_group_count] by blast
  show ?thesis
  proof (cases "findall_digits ?s [] = []")
    case True
    then show ?thesis
      by (simp add: extract_episode_info_def Let_def m)
  next
    case False
    then have "last (findall_digits ?s []) \<in> set (findall_digits ?s [])"
      by simp
    then have "length (last (findall_digits ?s [])) \<le> length ?s"
      using findall_digits_length [of ?s "[]"] by fastforce
    then have "py_int (last (findall_digits ?s []))
        = Inr (decimal_value (last (findall_digits ?s [])))"
      using short by (simp add: py_int_short)
    then show ?thesis
      by (simp add: extract_episode_info_def Let_def m)
  qed
qed

text \<open>
  Claim C7. For every file name, if the parser sets the season in its output it also
  sets the episode; it returns an output for every name of at most 4300 characters. An
  episode without a season is a valid output: \<open>Show 07.mkv\<close> gives episode 7 and no
  season.
\<close>

theorem season_implies_episode:
  "(extract_episode_info fn = Inr j \<longrightarrow> season j \<noteq> None \<longrightarrow> episode j \<noteq> None)
   \<and> (length fn \<le> INT_MAX_STR_DIGITS \<longrightarrow> (\<exists>i. extract_episode_info fn = Inr i))
   \<and> extract_episode_info ''Show 07.mkv''
     = Inr \<lparr>original_filename = ''Show 07.mkv'', clean_title = ''Show 07'',
            season = None, episode = Some 7, series_name = Some ''Show''\<rparr>"
proof (intro conjI impI)
  assume "extract_episode_info fn = Inr j" and "season j \<noteq> None"
  then show "episode j \<noteq> None"
    using extract_season_episode by blast
next
  assume "length fn \<le> INT_MAX_STR_DIGITS"
  then show "\<exists>i. extract_episode_info fn = Inr i"
    by (rule extract_returns)
next
  show "extract_episode_info ''Show 07.mkv''
     = Inr \<lparr>original_filename = ''Show 07.mkv'', clean_title = ''Show 07'',
            season = None, episode = Some 7, series_name = Some ''Show''\<rparr>"
    by (rule extract_show_07)
qed

theorem season_implies_episode_witness:
  "extract_episode_info ''Breaking Bad S01E05.mp4''
     = Inr \<lparr>original_filename = ''Breaking Bad S01E05.mp4'',
            clean_title = ''Breaking Bad S01E05'',
            season = Some 1, episode = Some 5, series_name = Some ''Breaking Bad''\<rparr>
   \<and> length ''Breaking Bad S01E05.mp4'' \<le> INT_MAX_STR_DIGITS
   \<and> season \<lparr>original_filename = ''Breaking Bad S01E05.mp4'',
            clean_title = ''Breaking Bad S01E05'',
            season = Some 1, episode = Some 5, series_name = Some ''Breaking Bad''\<rparr> \<noteq> None
   \<and> episode \<lparr>original_filename = ''Breaking Bad S01E05.mp4'',
            clean_title = ''Breaking Bad S01E05'',
            season = Some 1, episode = Some 5, series_name = Some ''Breaking Bad''\<rparr> \<noteq> None"
  using season_implies_episode
    [of "''Breaking Bad S01E05.mp4''"
        "\<lparr>original_filename = ''Breaking Bad S01E05.mp4'',
          clean_title = ''Breaking Bad S01E05'',
          season = Some 1, episode = Some 5, series_name = Some ''Breaking Bad''\<rparr>"]
  by (simp add: extract_breaking_bad INT_MAX_STR_DIGITS_def)

section \<open>Properties of grouping and navigation\<close>

text \<open>
  Claim C8. Grouping is to give every video record a key: the folder path if non-empty,
  else the parsed series name, else \<open>Unknown Series\<close>. For a video in the root folder
  whose file name yields no series name, such as \<open>movie.mp4\<close>, the code does not
  reach the fallback key: it raises \<open>AttributeError\<close> and no grouping is returned.
\<close>

theorem root_video_without_series_name_raises:
  "group_files_by_series [scan_record ''movie.mp4'' []] = Inl AttributeError"
  by code_simp

text \<open>Every list of files that contains such a video makes grouping raise.\<close>

lemma group_loop_raises:
  assumes "x \<in> set files" and "file_type x = ''video''" and "strip (folder x) = []"
    and "\<forall>c\<in>set (strip_video_ext (filename x)). \<not> is_digit c"
  shows "\<exists>e. group_loop files gs = Inl e"
  using assms(1)
proof (induction files arbitrary: gs)
  case Nil
  then show ?case by simp
next
  case (Cons y files)
  have key_x: "series_key_of x \<lparr>original_filename = filename x,
        clean_title = strip_video_ext (filename x),
        season = None, episode = None, series_name = None\<rparr> = Inl AttributeError"
    using assms(3) by (simp add: series_key_of_def)
  show ?case
  proof (cases "y = x")
    case True
    then show ?thesis
      using assms(2) key_x by (simp add: no_digits_unset [OF assms(4)])
  next
    case False
    with Cons.prems have "x \<in> set files" by simp
    then have "\<exists>e. group_loop files gs' = Inl e" for gs'
      by (rule Cons.IH)
    then show ?thesis
      by (auto simp: Let_def split: sum.splits)
  qed
qed

lemma group_files_raises:
  assumes "x \<in> set files" and "file_type x = ''video''" and "strip (folder x) = []"
    and "\<forall>c\<in>set (strip_video_ext (filename x)). \<not> is_digit c"
  shows "\<exists>e. group_files_by_series files = Inl e"
  using group_loop_raises [OF assms, of "[]"] by (auto simp: group_files_by_series_def)

text \<open>
  Claim C9. Navigation is to return the neighbour of a record in its group. The records
  the endpoints pass in come from \<open>get_enhanced_media_files\<close> and carry no
  \<open>series_key\<close>, so for the episodes \<open>S01E02\<close>, \<open>S01E01\<close>, \<open>S01E10\<close> of one
  series the next episode of \<open>S01E01\<close> and the previous episode of \<open>S01E02\<close> are
  both reported as none.
\<close>

theorem find_next_without_series_key:
  "get_enhanced_media_files scanned_episodes = Inr enhanced_episodes
   \<and> find_next_episode (enhanced_record ''Show S01E01.mp4'' ''Show'') enhanced_episodes = Inr None
   \<and> find_previous_episode (enhanced_record ''Show S01E02.mp4'' ''Show'') enhanced_episodes
       = Inr None"
  by code_simp

text \<open>No record without a \<open>series_key\<close> has a neighbour; the members of a group,
  which carry the key, have the neighbours the sort order gives them.\<close>

lemma no_series_key_no_neighbour:
  "series_key current_file = None \<Longrightarrow>
   find_next_episode current_file all_files \<noteq> Inr (Some x)
   \<and> find_previous_episode current_file all_files \<noteq> Inr (Some x)"
  by (simp add: find_next_episode_def find_previous_episode_def series_episodes_of_def
      split: sum.splits)

lemma navigation_with_series_key:
  "group_files_by_series enhanced_episodes
     = Inr [(''Show'', [grouped_record ''Show S01E01.mp4'' ''Show'' ''Show'',
                        grouped_record ''Show S01E02.mp4'' ''Show'' ''Show'',
                        grouped_record ''Show S01E10.mp4'' ''Show'' ''Show''])]"
  "find_next_episode (grouped_record ''Show S01E01.mp4'' ''Show'' ''Show'') enhanced_episodes
     = Inr (Some (grouped_record ''Show S01E02.mp4'' ''Show'' ''Show''))"
  "find_next_episode (grouped_record ''Show S01E10.mp4'' ''Show'' ''Show'') enhanced_episodes
     = Inr None"
  "find_previous_episode (grouped_record ''Show S01E02.mp4'' ''Show'' ''Show'') enhanced_episodes
     = Inr (Some (grouped_record ''Show S01E01.mp4'' ''Show'' ''Show''))"
  by code_simp+

end
